theory Spec2Isabelle
  imports Main
begin

section \<open>ha-cam-tag: the capture / detect / debounce pipeline of \<open>__main__.py\<close>\<close>

text \<open>
  The program is one Python module. A main thread (the supervisor, \<open>main\<close>) opens a camera
  stream, reads frames and signals each one on a \<open>threading.Event\<close>; a second thread
  (\<open>detector_loop\<close>) waits on that event, decodes a QR code, matches the decoded text against
  \<open>TAG_ID_PATTERN\<close>, debounces the identifier and posts it to Home Assistant.

  Decoded text is modelled as a \<open>string\<close> (a list of 8-bit characters), a
  \<open>datetime\<close> as an \<open>int\<close> counting microseconds (the resolution of
  \<open>datetime\<close> and \<open>timedelta\<close>), and a frame as an opaque numbered value.
\<close>

subsection \<open>Identifier extraction: \<open>TAG_ID_PATTERN\<close> (line 18)\<close>

text \<open>
  \<^verbatim>\<open>TAG_ID_PATTERN = re.compile(r'https://www.home-assistant.io/tag/([0-9a-fA-F-]+)')\<close>

  The pattern is a sequence of single-character atoms followed by one capturing group, a greedy
  \<open>+\<close> over a character class. Among the atoms the only metacharacter is \<open>.\<close>, which
  (no \<open>DOTALL\<close> flag) matches every character but the line feed; every other character of
  the prefix stands for itself. \<open>Pattern.match\<close> anchors at the start of the text only.
\<close>

definition LF :: char where
  "LF = CHR 0x0A"

definition TAG_ID_PREFIX :: string where
  "TAG_ID_PREFIX = ''https://www.home-assistant.io/tag/''"

fun atom_matches :: "char \<Rightarrow> char \<Rightarrow> bool" where
  "atom_matches p c = (if p = CHR ''.'' then c \<noteq> LF else c = p)"

fun match_atoms :: "string \<Rightarrow> string \<Rightarrow> string option" where
  "match_atoms [] cs = Some cs"
| "match_atoms (p # ps) [] = None"
| "match_atoms (p # ps) (c # cs) = (if atom_matches p c then match_atoms ps cs else None)"

text \<open>The class \<open>[0-9a-fA-F-]\<close>: three code-point ranges and the literal hyphen.\<close>

definition tag_char :: "char \<Rightarrow> bool" where
  "tag_char c =
     (let n = (of_char c :: nat)
      in (48 \<le> n \<and> n \<le> 57) \<or> (97 \<le> n \<and> n \<le> 102) \<or> (65 \<le> n \<and> n \<le> 70) \<or> n = 45)"

text \<open>
  \<open>TAG_ID_PATTERN.match(data)\<close> followed by \<open>m.group(1)\<close>: \<open>None\<close> when there is no
  match, otherwise the text captured by the group. Nothing follows the group in the pattern, so
  the greedy \<open>+\<close> captures the longest run of class characters, and needs at least one.
\<close>

definition TAG_ID_PATTERN_match :: "string \<Rightarrow> string option" where
  "TAG_ID_PATTERN_match data =
     (case match_atoms TAG_ID_PREFIX data of
        None \<Rightarrow> None
      | Some rest \<Rightarrow>
          (let tok = takeWhile tag_char rest in if tok = [] then None else Some tok))"

subsection \<open>Exceptions\<close>

datatype exc =
    NameError
  | UnboundLocalError
  | KeyError
  | TypeError
  | OSError
  | CvError
  | OtherException
  | KeyboardInterrupt
  | SystemExit nat

text \<open>\<open>except Exception\<close> catches every exception class but those deriving from
  \<open>BaseException\<close> directly.\<close>

fun is_Exception :: "exc \<Rightarrow> bool" where
  "is_Exception KeyboardInterrupt = False"
| "is_Exception (SystemExit n) = False"
| "is_Exception e = True"

subsection \<open>The debounce gate (lines 17, 55 and 64)\<close>

text \<open>\<^verbatim>\<open>DEBOUNCE_PERIOD = timedelta(seconds=5)\<close>, in microseconds.\<close>

definition DEBOUNCE_PERIOD :: int where
  "DEBOUNCE_PERIOD = 5 * 1000000"

text \<open>
  \<^verbatim>\<open>last_tag != tag_id or last_time < cur_time - DEBOUNCE_PERIOD\<close>

  \<open>or\<close> evaluates its right operand only when the left one is false; comparing \<open>None\<close>
  with a \<open>datetime\<close> raises \<open>TypeError\<close>.
\<close>

definition debounce_gate :: "int option \<Rightarrow> string option \<Rightarrow> string \<Rightarrow> int \<Rightarrow> exc + bool" where
  "debounce_gate last_time last_tag tag_id cur_time =
     (if last_tag \<noteq> Some tag_id then Inr True
      else case last_time of
             None \<Rightarrow> Inl TypeError
           | Some t \<Rightarrow> Inr (t < cur_time - DEBOUNCE_PERIOD))"

subsection \<open>The environment\<close>

datatype frame = Frame nat

text \<open>A Python name is bound to a value or unbound; reading an unbound name raises.\<close>

datatype 'a binding = Unbound | Bound 'a

text \<open>
  What \<open>json.load\<close> returned: an object (a \<open>dict\<close>, here with string values) or any other
  JSON value. Subscripting a \<open>dict\<close> with a missing key raises \<open>KeyError\<close>; subscripting
  a list, a number, a string, a boolean or \<open>None\<close> with a string raises \<open>TypeError\<close>.
\<close>

datatype json = JObject "string \<rightharpoonup> string" | JOther

fun subscript :: "json \<Rightarrow> string \<Rightarrow> exc + string" where
  "subscript (JObject d) k = (case d k of None \<Rightarrow> Inl KeyError | Some v \<Rightarrow> Inr v)"
| "subscript JOther k = Inl TypeError"

text \<open>What \<open>open(CONFIG_PATH)\<close> and \<open>json.load\<close> do (lines 43 to 50).\<close>

datatype load_outcome = FileNotFound | JSONDecodeError | OtherLoadError | Loaded json

text \<open>
  One \<open>cv2.VideoCapture(address)\<close>: the stream does not open, or it opens and then delivers
  the listed results of \<open>stream.read()\<close>. \<open>None\<close> in the list is a failed read
  (\<open>ret\<close> false or a null frame), as is every read past the end of the list.
\<close>

datatype conn = OpenFails | Opens "frame option list"

datatype decode_result = Decoded string | DecodeCvError | DecodeOtherError

text \<open>\<open>requests.post\<close> with \<open>raise_for_status\<close>: success, a
  \<open>RequestException\<close>, or some other exception.\<close>

datatype post_result = PostOk | PostRequestException | PostOtherException

record world =
  load_result :: load_outcome
  capture :: "nat \<Rightarrow> conn"
  detectAndDecode :: "frame \<Rightarrow> decode_result"
  now :: "nat \<Rightarrow> int"
  post :: "nat \<Rightarrow> post_result"

text \<open>
  \<open>capture w k\<close> is the outcome of the \<open>k\<close>-th \<open>VideoCapture\<close> call; \<open>now w k\<close>
  and \<open>post w k\<close> are the clock reading and the sink's answer in the \<open>k\<close>-th iteration of
  the detector loop.
\<close>

subsection \<open>Observable events\<close>

datatype level = DEBUG | INFO | ERROR

datatype event =
    Log level string
  | ThreadStart
  | VideoCapture bool
  | Sleep nat
  | Publish frame
  | Release
  | Detect frame
  | Post string string

subsection \<open>Program state\<close>

record capture_handle =
  isOpened :: bool
  pending :: "frame option list"

datatype result = Returned nat | Raised exc

datatype main_pc =
    M_load_config
  | M_start_thread
  | M_install_handler
  | M_outer_check
  | M_open
  | M_backoff_fail
  | M_inner_check
  | M_read
  | M_release
  | M_backoff
  | M_except
  | M_finally "exc option"
  | M_join
  | M_return
  | M_done result

datatype thread_end = Finished | Died exc

datatype det_pc =
    D_unstarted
  | D_check
  | D_wait
  | D_body
  | D_clear
  | D_done thread_end

text \<open>
  The two \<open>threading.Event\<close> objects, whether the \<open>SIGINT\<close> handler of line 86 is
  installed, the main thread's program counter and locals (\<open>config\<close>, \<open>frame\<close>,
  \<open>stream\<close>), the detector thread's program counter and locals (\<open>last_time\<close>,
  \<open>last_tag\<close>), two counters that index the environment, and the events so far.
\<close>

record state =
  exiting :: bool
  cv :: bool
  handler :: bool
  mpc :: main_pc
  config :: "json binding"
  main_frame :: "frame option"
  stream :: "capture_handle binding"
  opens :: nat
  dpc :: det_pc
  last_time :: "int option"
  last_tag :: "string option"
  wakes :: nat
  trace :: "event list"

definition init :: state where
  "init = \<lparr> exiting = False, cv = False, handler = False, mpc = M_load_config,
            config = Unbound, main_frame = None, stream = Unbound, opens = 0,
            dpc = D_unstarted, last_time = None, last_tag = None, wakes = 0, trace = [] \<rparr>"

definition emit :: "event \<Rightarrow> state \<Rightarrow> state" where
  "emit e s = s\<lparr>trace := trace s @ [e]\<rparr>"

subsection \<open>The detector thread: \<open>send_tag_event\<close> and \<open>detector_loop\<close>\<close>

text \<open>
  \<open>send_tag_event\<close> (lines 23 to 38): one \<open>requests.post\<close>; a \<open>RequestException\<close> is
  caught and logged, anything else propagates to the caller.
\<close>

definition send_tag_event ::
    "post_result \<Rightarrow> string \<Rightarrow> string \<Rightarrow> state \<Rightarrow> exc option \<times> state" where
  "send_tag_event r tag_id device_id s =
     (let s1 = emit (Post tag_id device_id) s
      in case r of
           PostOk \<Rightarrow> (None, emit (Log INFO ''Successfully sent tag event'') s1)
         | PostRequestException \<Rightarrow> (None, emit (Log ERROR ''Failed to send tag event'') s1)
         | PostOtherException \<Rightarrow> (Some OtherException, s1))"

text \<open>
  The body of the \<open>try\<close> (lines 61 to 66) for a frame \<open>f\<close> and the configuration
  \<open>cfg\<close>: the exception that leaves the body, if any, and the state it leaves behind.
  The arguments of \<open>send_tag_event\<close> are evaluated before the call, so a missing
  \<open>tag_event_device_id\<close> raises before anything is sent; line 66 runs only when
  \<open>send_tag_event\<close> returns.
\<close>

definition try_body :: "world \<Rightarrow> json \<Rightarrow> frame \<Rightarrow> state \<Rightarrow> exc option \<times> state" where
  "try_body w cfg f s =
     (let s1 = emit (Detect f) s
      in case detectAndDecode w f of
           DecodeCvError \<Rightarrow> (Some CvError, s1)
         | DecodeOtherError \<Rightarrow> (Some OtherException, s1)
         | Decoded data \<Rightarrow>
             (if data = [] then (None, s1)
              else case TAG_ID_PATTERN_match data of
                     None \<Rightarrow> (None, s1)
                   | Some tag_id \<Rightarrow>
                       (let cur_time = now w (wakes s1)
                        in case debounce_gate (last_time s1) (last_tag s1) tag_id cur_time of
                             Inl e \<Rightarrow> (Some e, s1)
                           | Inr False \<Rightarrow> (None, s1)
                           | Inr True \<Rightarrow>
                               (case subscript cfg ''tag_event_device_id'' of
                                  Inl e \<Rightarrow> (Some e, s1)
                                | Inr device_id \<Rightarrow>
                                    (case send_tag_event (post w (wakes s1)) tag_id device_id s1 of
                                       (Some e, s2) \<Rightarrow> (Some e, s2)
                                     | (None, s2) \<Rightarrow>
                                         (None, s2\<lparr>last_time := Some cur_time,
                                                    last_tag := Some tag_id\<rparr>))))))"

text \<open>
  Lines 59 to 72, given what the name \<open>frame\<close> evaluates to inside \<open>detector_loop\<close>.
  The test of line 59 stands outside the \<open>try\<close>, so an unbound name ends the thread with
  \<open>NameError\<close>. Inside the \<open>try\<close>, \<open>cv2.error\<close> and every other \<open>Exception\<close>
  are caught and logged.
\<close>

definition loop_body :: "world \<Rightarrow> json \<Rightarrow> frame option binding \<Rightarrow> state \<Rightarrow> state" where
  "loop_body w cfg fr s =
     (case fr of
        Unbound \<Rightarrow> s\<lparr>dpc := D_done (Died NameError)\<rparr>
      | Bound None \<Rightarrow> (emit (Log DEBUG ''No frame to process.'') s)\<lparr>dpc := D_clear\<rparr>
      | Bound (Some f) \<Rightarrow>
          (case try_body w cfg f s of
             (None, s1) \<Rightarrow> s1\<lparr>dpc := D_clear\<rparr>
           | (Some e, s1) \<Rightarrow>
               (if e = CvError then (emit (Log ERROR ''OpenCV error'') s1)\<lparr>dpc := D_clear\<rparr>
                else if is_Exception e
                  then (emit (Log ERROR ''Unexpected error'') s1)\<lparr>dpc := D_clear\<rparr>
                else s1\<lparr>dpc := D_done (Died e)\<rparr>)))"

text \<open>
  The name \<open>frame\<close> in \<open>detector_loop\<close>. The function has no parameter and no assignment
  of that name and is defined at module level, so the name is looked up among the module's
  globals (and the builtins). The module binds \<open>logging\<close>, \<open>re\<close>, \<open>signal\<close>,
  \<open>sys\<close>, \<open>threading\<close>, \<open>time\<close>, \<open>json\<close>, \<open>os\<close>, \<open>requests\<close>,
  \<open>datetime\<close>, \<open>timedelta\<close>, \<open>cv2\<close>, \<open>CONFIG_PATH\<close>, \<open>API_URL\<close>,
  \<open>AUTH_TOKEN\<close>, \<open>DEBOUNCE_PERIOD\<close>, \<open>TAG_ID_PATTERN\<close>, \<open>send_tag_event\<close>,
  \<open>load_config\<close>, \<open>detector_loop\<close> and \<open>main\<close>, and never \<open>frame\<close>: the
  \<open>frame\<close> that \<open>main\<close> assigns (lines 78 and 97) is a local variable of \<open>main\<close>.
\<close>

definition module_globals :: "string list" where
  "module_globals =
     [''logging'', ''re'', ''signal'', ''sys'', ''threading'', ''time'', ''json'', ''os'',
      ''requests'', ''datetime'', ''timedelta'', ''cv2'', ''CONFIG_PATH'', ''API_URL'',
      ''AUTH_TOKEN'', ''DEBOUNCE_PERIOD'', ''TAG_ID_PATTERN'', ''send_tag_event'',
      ''load_config'', ''detector_loop'', ''main'']"

definition detector_frame :: "state \<Rightarrow> frame option binding" where
  "detector_frame s =
     (if ''frame'' \<in> set module_globals then Bound (main_frame s) else Unbound)"

text \<open>One pass through lines 59 to 72, counted.\<close>

definition iteration :: "world \<Rightarrow> json \<Rightarrow> frame option binding \<Rightarrow> state \<Rightarrow> state" where
  "iteration w cfg fr s = (loop_body w cfg fr s)\<lparr>wakes := Suc (wakes s)\<rparr>"

text \<open>
  One step of the detector thread: line 57, line 58, lines 59 to 72, line 73. The thread's
  \<open>config\<close> is the object \<open>main\<close> passed at line 82. A thread blocked in
  \<open>cv.wait()\<close> stays where it is.
\<close>

definition detector_step :: "world \<Rightarrow> state \<Rightarrow> state" where
  "detector_step w s =
     (case dpc s of
        D_unstarted \<Rightarrow> s
      | D_check \<Rightarrow> (if exiting s then s\<lparr>dpc := D_done Finished\<rparr> else s\<lparr>dpc := D_wait\<rparr>)
      | D_wait \<Rightarrow> (if cv s then s\<lparr>dpc := D_body\<rparr> else s)
      | D_body \<Rightarrow>
          (case config s of
             Unbound \<Rightarrow> s\<lparr>dpc := D_done (Died UnboundLocalError)\<rparr>
           | Bound cfg \<Rightarrow> iteration w cfg (detector_frame s) s)
      | D_clear \<Rightarrow> s\<lparr>cv := False, dpc := D_check\<rparr>
      | D_done r \<Rightarrow> s)"

subsection \<open>The main thread: \<open>load_config\<close> and \<open>main\<close>\<close>

text \<open>
  \<open>load_config\<close> (lines 40 to 50), called at line 76. \<open>sys.exit(1)\<close> raises
  \<open>SystemExit(1)\<close>, which nothing catches; any other error of \<open>open\<close> or
  \<open>json.load\<close> propagates as it is.
\<close>

definition load_config :: "world \<Rightarrow> state \<Rightarrow> state" where
  "load_config w s =
     (case load_result w of
        Loaded j \<Rightarrow> s\<lparr>config := Bound j, mpc := M_start_thread\<rparr>
      | FileNotFound \<Rightarrow>
          (emit (Log ERROR ''Configuration file not found.'') s)
            \<lparr>mpc := M_done (Raised (SystemExit 1))\<rparr>
      | JSONDecodeError \<Rightarrow>
          (emit (Log ERROR ''Error decoding JSON config'') s)
            \<lparr>mpc := M_done (Raised (SystemExit 1))\<rparr>
      | OtherLoadError \<Rightarrow> s\<lparr>mpc := M_done (Raised OSError)\<rparr>)"

text \<open>
  An exception raised inside the \<open>try\<close> of lines 88 to 105: \<open>KeyboardInterrupt\<close> enters
  the \<open>except\<close> clause, any other exception runs the \<open>finally\<close> clause and propagates.
\<close>

definition raise_in_try :: "exc \<Rightarrow> state \<Rightarrow> state" where
  "raise_in_try e s =
     (if e = KeyboardInterrupt then s\<lparr>mpc := M_except\<rparr> else s\<lparr>mpc := M_finally (Some e)\<rparr>)"

text \<open>
  Lines 90 and 91: \<open>config['camera_rtsp_stream']\<close> is evaluated first; then \<open>stream\<close> is
  bound to the new capture object, opened or not.
\<close>

definition open_stream :: "world \<Rightarrow> state \<Rightarrow> state" where
  "open_stream w s =
     (case config s of
        Unbound \<Rightarrow> raise_in_try UnboundLocalError s
      | Bound cfg \<Rightarrow>
          (case subscript cfg ''camera_rtsp_stream'' of
             Inl e \<Rightarrow> raise_in_try e s
           | Inr address \<Rightarrow>
               (case capture w (opens s) of
                  OpenFails \<Rightarrow>
                    (emit (VideoCapture False) s)
                      \<lparr>stream := Bound \<lparr>isOpened = False, pending = []\<rparr>,
                       opens := Suc (opens s), mpc := M_backoff_fail\<rparr>
                | Opens fs \<Rightarrow>
                    (emit (VideoCapture True) s)
                      \<lparr>stream := Bound \<lparr>isOpened = True, pending = fs\<rparr>,
                       opens := Suc (opens s), mpc := M_inner_check\<rparr>)))"

text \<open>Line 96, the condition of the inner loop.\<close>

definition inner_check :: "state \<Rightarrow> state" where
  "inner_check s =
     (case stream s of
        Unbound \<Rightarrow> raise_in_try UnboundLocalError s
      | Bound h \<Rightarrow> (if isOpened h \<and> \<not> exiting s then s\<lparr>mpc := M_read\<rparr>
                    else s\<lparr>mpc := M_release\<rparr>))"

text \<open>
  Lines 97 to 102: \<open>ret, frame = stream.read()\<close> assigns the local \<open>frame\<close> of
  \<open>main\<close>; a frame is signalled with \<open>cv.set()\<close>, a failed read leaves the inner loop.
\<close>

definition read_frame :: "state \<Rightarrow> state" where
  "read_frame s =
     (case stream s of
        Unbound \<Rightarrow> raise_in_try UnboundLocalError s
      | Bound h \<Rightarrow>
          (case pending h of
             Some f # rest \<Rightarrow>
               (emit (Publish f) s)
                 \<lparr>stream := Bound (h\<lparr>pending := rest\<rparr>), main_frame := Some f,
                  cv := True, mpc := M_inner_check\<rparr>
           | None # rest \<Rightarrow>
               (emit (Log ERROR ''Failed to capture frame or frame is None.'') s)
                 \<lparr>stream := Bound (h\<lparr>pending := rest\<rparr>), main_frame := None,
                  mpc := M_release\<rparr>
           | [] \<Rightarrow>
               (emit (Log ERROR ''Failed to capture frame or frame is None.'') s)
                 \<lparr>main_frame := None, mpc := M_release\<rparr>))"

text \<open>Line 104, \<open>stream.release()\<close> after the inner loop.\<close>

definition release_stream :: "state \<Rightarrow> state" where
  "release_stream s =
     (case stream s of
        Unbound \<Rightarrow> raise_in_try UnboundLocalError s
      | Bound h \<Rightarrow> (emit Release s)\<lparr>stream := Bound (h\<lparr>isOpened := False\<rparr>), mpc := M_backoff\<rparr>)"

text \<open>
  Lines 111 to 113, the \<open>finally\<close> clause, with the exception that is pending. Reading the
  local \<open>stream\<close> before line 90 has bound it raises \<open>UnboundLocalError\<close>, which
  replaces the pending exception.
\<close>

definition finally_clause :: "exc option \<Rightarrow> state \<Rightarrow> state" where
  "finally_clause pend s =
     (case stream s of
        Unbound \<Rightarrow> s\<lparr>mpc := M_done (Raised UnboundLocalError)\<rparr>
      | Bound h \<Rightarrow>
          (let s1 = (emit Release s)\<lparr>stream := Bound (h\<lparr>isOpened := False\<rparr>)\<rparr>
           in case pend of
                None \<Rightarrow> s1\<lparr>mpc := M_join\<rparr>
              | Some e \<Rightarrow> s1\<lparr>mpc := M_done (Raised e)\<rparr>))"

text \<open>Whether the detector thread has ended, which is what \<open>join\<close> waits for.\<close>

fun ended :: "det_pc \<Rightarrow> bool" where
  "ended (D_done r) = True"
| "ended pc = False"

text \<open>
  One step of the main thread, by line: 76; 77 to 83; 86; 89; 90 and 91; 92 to 94; 96;
  97 to 102; 104; 105; 107 to 110; 111 to 113; 115; 116 and 117. A thread blocked in
  \<open>detector_thread.join()\<close> stays where it is.
\<close>

definition main_step :: "world \<Rightarrow> state \<Rightarrow> state" where
  "main_step w s =
     (case mpc s of
        M_load_config \<Rightarrow> load_config w s
      | M_start_thread \<Rightarrow>
          (emit ThreadStart s)
            \<lparr>exiting := False, main_frame := None, cv := False, dpc := D_check,
             mpc := M_install_handler\<rparr>
      | M_install_handler \<Rightarrow> s\<lparr>handler := True, mpc := M_outer_check\<rparr>
      | M_outer_check \<Rightarrow> (if exiting s then s\<lparr>mpc := M_finally None\<rparr> else s\<lparr>mpc := M_open\<rparr>)
      | M_open \<Rightarrow> open_stream w s
      | M_backoff_fail \<Rightarrow>
          (emit (Sleep 5) (emit (Log ERROR ''Failed to open camera stream.'') s))
            \<lparr>mpc := M_outer_check\<rparr>
      | M_inner_check \<Rightarrow> inner_check s
      | M_read \<Rightarrow> read_frame s
      | M_release \<Rightarrow> release_stream s
      | M_backoff \<Rightarrow> (emit (Sleep 5) s)\<lparr>mpc := M_outer_check\<rparr>
      | M_except \<Rightarrow>
          (emit (Log INFO ''Exiting due to keyboard interrupt.'') s)
            \<lparr>exiting := True, cv := True, mpc := M_finally None\<rparr>
      | M_finally pend \<Rightarrow> finally_clause pend s
      | M_join \<Rightarrow> (if ended (dpc s) then s\<lparr>mpc := M_return\<rparr> else s)
      | M_return \<Rightarrow> (emit (Log INFO ''Exited gracefully.'') s)\<lparr>mpc := M_done (Returned 0)\<rparr>
      | M_done r \<Rightarrow> s)"

subsection \<open>The interrupt signal\<close>

text \<open>
  Python runs a signal handler in the main thread. Until line 86 has run, the handler of
  \<open>SIGINT\<close> is the default one, which raises \<open>KeyboardInterrupt\<close> at the point the main
  thread has reached; from line 86 on it is \<^verbatim>\<open>lambda sig, frame: exiting.set()\<close>.
\<close>

fun in_try :: "main_pc \<Rightarrow> bool" where
  "in_try M_outer_check = True"
| "in_try M_open = True"
| "in_try M_backoff_fail = True"
| "in_try M_inner_check = True"
| "in_try M_read = True"
| "in_try M_release = True"
| "in_try M_backoff = True"
| "in_try pc = False"

definition default_int_handler :: "state \<Rightarrow> state" where
  "default_int_handler s =
     (case mpc s of
        M_done r \<Rightarrow> s
      | M_except \<Rightarrow> s\<lparr>mpc := M_finally (Some KeyboardInterrupt)\<rparr>
      | pc \<Rightarrow> (if in_try pc then raise_in_try KeyboardInterrupt s
               else s\<lparr>mpc := M_done (Raised KeyboardInterrupt)\<rparr>))"

definition installed_handler :: "state \<Rightarrow> state" where
  "installed_handler s = s\<lparr>exiting := True\<rparr>"

definition sigint :: "state \<Rightarrow> state" where
  "sigint s = (if handler s then installed_handler s else default_int_handler s)"

subsection \<open>Interleavings and the exit status\<close>

datatype actor = Main | Detector | SIGINT

fun step :: "world \<Rightarrow> actor \<Rightarrow> state \<Rightarrow> state" where
  "step w Main s = main_step w s"
| "step w Detector s = detector_step w s"
| "step w SIGINT s = sigint s"

fun run :: "world \<Rightarrow> actor list \<Rightarrow> state \<Rightarrow> state" where
  "run w [] s = s"
| "run w (a # as) s = run w as (step w a s)"

text \<open>
  The status of \<open>sys.exit(main())\<close> (line 120): the returned value, the code of
  \<open>SystemExit\<close>, 130 for an uncaught \<open>KeyboardInterrupt\<close> and 1 for any other
  uncaught exception.
\<close>

fun exit_status :: "result \<Rightarrow> nat" where
  "exit_status (Returned n) = n"
| "exit_status (Raised (SystemExit n)) = n"
| "exit_status (Raised KeyboardInterrupt) = 130"
| "exit_status (Raised e) = 1"

text \<open>
  The detector is not a daemon thread: once the main thread has ended, the interpreter waits
  for it, and the process exits only when both have ended.
\<close>

fun detector_alive :: "det_pc \<Rightarrow> bool" where
  "detector_alive D_unstarted = False"
| "detector_alive (D_done r) = False"
| "detector_alive pc = True"

definition process_exit :: "state \<Rightarrow> nat option" where
  "process_exit s =
     (case mpc s of
        M_done r \<Rightarrow> (if detector_alive (dpc s) then None else Some (exit_status r))
      | pc \<Rightarrow> None)"

subsection \<open>Dispatches, and environments to run the program in\<close>

text \<open>The calls of \<open>requests.post\<close> among the events, in order.\<close>

fun is_post :: "event \<Rightarrow> bool" where
  "is_post (Post tag_id device_id) = True"
| "is_post e = False"

definition posts :: "state \<Rightarrow> event list" where
  "posts s = filter is_post (trace s)"

definition options :: json where
  "options = JObject [''camera_rtsp_stream'' \<mapsto> ''rtsp://camera/stream'',
                      ''tag_event_device_id'' \<mapsto> ''door'']"

text \<open>A camera that opens at once and delivers two frames, each showing the tag
  \<open>ab12\<close>; the clock advances five seconds from one detector iteration to the next.\<close>

definition camera_world :: world where
  "camera_world =
     \<lparr> load_result = Loaded options,
       capture = (\<lambda>k. Opens [Some (Frame 1), Some (Frame 2)]),
       detectAndDecode = (\<lambda>f. Decoded ''https://www.home-assistant.io/tag/ab12''),
       now = (\<lambda>k. int k * DEBOUNCE_PERIOD),
       post = (\<lambda>k. PostOk) \<rparr>"

text \<open>The same with a camera that never opens.\<close>

definition no_camera_world :: world where
  "no_camera_world = camera_world\<lparr>capture := (\<lambda>k. OpenFails)\<rparr>"

text \<open>The same with a camera that opens at the third attempt.\<close>

definition late_camera_world :: world where
  "late_camera_world =
     camera_world\<lparr>capture := (\<lambda>k. if k < 2 then OpenFails else Opens [Some (Frame 1)])\<rparr>"

text \<open>A configuration file that holds the empty object, and one that does not exist.\<close>

definition empty_options_world :: world where
  "empty_options_world = camera_world\<lparr>load_result := Loaded (JObject Map.empty)\<rparr>"

definition no_file_world :: world where
  "no_file_world = camera_world\<lparr>load_result := FileNotFound\<rparr>"

subsection \<open>The expected course of a reconnection\<close>

text \<open>
  The events of \<open>k\<close> failed attempts to open the stream, each followed by the log line and
  the five-second sleep of lines 92 and 93, and the events of a run in which the stream opens
  at attempt \<open>N + 1\<close>.
\<close>

definition failed_attempts :: "nat \<Rightarrow> event list" where
  "failed_attempts k =
     concat (replicate k
       [VideoCapture False, Log ERROR ''Failed to open camera stream.'', Sleep 5])"

definition reconnection :: "nat \<Rightarrow> event list" where
  "reconnection N = ThreadStart # failed_attempts N @ [VideoCapture True]"

text \<open>
  Where the main thread stands after \<open>n\<close> of its steps when the first \<open>N\<close> attempts fail,
  attempt \<open>N + 1\<close> succeeds and no interrupt arrives.
\<close>

inductive supervisor_at :: "json \<Rightarrow> nat \<Rightarrow> nat \<Rightarrow> state \<Rightarrow> bool" for cfg N where
  at_load:
    "mpc s = M_load_config \<Longrightarrow> opens s = 0 \<Longrightarrow> trace s = [] \<Longrightarrow> supervisor_at cfg N 0 s"
| at_start:
    "mpc s = M_start_thread \<Longrightarrow> config s = Bound cfg \<Longrightarrow> opens s = 0 \<Longrightarrow> trace s = [] \<Longrightarrow>
     supervisor_at cfg N 1 s"
| at_handler:
    "mpc s = M_install_handler \<Longrightarrow> \<not> exiting s \<Longrightarrow> config s = Bound cfg \<Longrightarrow> opens s = 0 \<Longrightarrow>
     trace s = [ThreadStart] \<Longrightarrow> supervisor_at cfg N 2 s"
| at_check:
    "i \<le> N \<Longrightarrow> mpc s = M_outer_check \<Longrightarrow> \<not> exiting s \<Longrightarrow> config s = Bound cfg \<Longrightarrow>
     opens s = i \<Longrightarrow> trace s = ThreadStart # failed_attempts i \<Longrightarrow>
     supervisor_at cfg N (3 + 3 * i) s"
| at_open:
    "i \<le> N \<Longrightarrow> mpc s = M_open \<Longrightarrow> \<not> exiting s \<Longrightarrow> config s = Bound cfg \<Longrightarrow>
     opens s = i \<Longrightarrow> trace s = ThreadStart # failed_attempts i \<Longrightarrow>
     supervisor_at cfg N (4 + 3 * i) s"
| at_backoff:
    "i < N \<Longrightarrow> mpc s = M_backoff_fail \<Longrightarrow> \<not> exiting s \<Longrightarrow> config s = Bound cfg \<Longrightarrow>
     opens s = Suc i \<Longrightarrow> trace s = ThreadStart # failed_attempts i @ [VideoCapture False] \<Longrightarrow>
     supervisor_at cfg N (5 + 3 * i) s"
| at_streaming:
    "3 * N + 5 \<le> n \<Longrightarrow> trace s = reconnection N @ rest \<Longrightarrow> supervisor_at cfg N n s"

fun is_open_attempt :: "event \<Rightarrow> bool" where
  "is_open_attempt (VideoCapture opened) = True"
| "is_open_attempt e = False"

section \<open>Identifier extraction\<close>

lemma match_atoms_append:
  "list_all2 atom_matches ps cs \<Longrightarrow> match_atoms ps (cs @ rest) = Some rest"
  by (induction ps cs rule: list_all2_induct) simp_all

lemma match_atoms_Some:
  "match_atoms ps data = Some rest \<Longrightarrow> \<exists>cs. data = cs @ rest \<and> list_all2 atom_matches ps cs"
proof (induction ps data rule: match_atoms.induct)
  case (1 cs)
  then show ?case by simp
next
  case (2 p ps)
  then show ?case by simp
next
  case (3 p ps c cs)
  then have m: "atom_matches p c" and r: "match_atoms ps cs = Some rest"
    by (auto split: if_splits)
  from "3.IH"[OF m r] obtain cs' where "cs = cs' @ rest" "list_all2 atom_matches ps cs'"
    by blast
  with m have "c # cs = (c # cs') @ rest \<and> list_all2 atom_matches (p # ps) (c # cs')"
    by simp
  then show ?case by blast
qed

lemma prefix_matches_itself: "list_all2 atom_matches TAG_ID_PREFIX TAG_ID_PREFIX"
  by (simp add: TAG_ID_PREFIX_def LF_def)

lemma dots_match_other_characters:
  "c1 \<noteq> LF \<Longrightarrow> c2 \<noteq> LF \<Longrightarrow>
   list_all2 atom_matches TAG_ID_PREFIX
     (''https://www'' @ [c1] @ ''home-assistant'' @ [c2] @ ''io/tag/'')"
  by (simp add: TAG_ID_PREFIX_def LF_def)

lemma takeWhile_token:
  "list_all tag_char tok \<Longrightarrow> takeWhile tag_char (tok @ rest) = tok @ takeWhile tag_char rest"
  by (induction tok) auto

lemma match_complete:
  assumes "list_all2 atom_matches TAG_ID_PREFIX pre" and "tok \<noteq> []" and "list_all tag_char tok"
  shows "TAG_ID_PATTERN_match (pre @ tok @ rest) = Some (tok @ takeWhile tag_char rest)"
  using assms by (simp add: TAG_ID_PATTERN_match_def match_atoms_append takeWhile_token)

lemma match_sound:
  assumes "TAG_ID_PATTERN_match data = Some tok"
  shows "tok \<noteq> [] \<and> list_all tag_char tok \<and>
         (\<exists>pre rest. data = pre @ tok @ rest \<and> list_all2 atom_matches TAG_ID_PREFIX pre)"
proof -
  from assms obtain r where r: "match_atoms TAG_ID_PREFIX data = Some r"
    and tok: "tok = takeWhile tag_char r" and ne: "tok \<noteq> []"
    by (auto simp: TAG_ID_PATTERN_match_def Let_def split: option.splits if_splits)
  from match_atoms_Some[OF r] obtain pre
    where d: "data = pre @ r" and p: "list_all2 atom_matches TAG_ID_PREFIX pre"
    by blast
  have "r = tok @ dropWhile tag_char r"
    by (simp add: tok)
  with d have "data = pre @ tok @ dropWhile tag_char r"
    by simp
  moreover have "list_all tag_char tok"
    unfolding tok list_all_iff by (auto dest: set_takeWhileD)
  ultimately show ?thesis
    using ne p by blast
qed

text \<open>
  C5. The decoded text is matched against the base URL followed by \<open>/tag/\<close> and a token of hex
  digits and hyphens, and only the token is extracted:
  \<open>https://www.home-assistant.io/tag/ab12-CD34\<close> yields \<open>ab12-CD34\<close>,
  \<open>https://example.com/other\<close> yields nothing, the base URL followed by any non-empty
  token yields that token, and whatever is extracted is a non-empty run of hex digits and
  hyphens standing in the text right after a prefix that the URL part of the pattern matches.
\<close>

theorem identifier_extraction:
  "TAG_ID_PATTERN_match ''https://www.home-assistant.io/tag/ab12-CD34'' = Some ''ab12-CD34'' \<and>
   TAG_ID_PATTERN_match ''https://example.com/other'' = None \<and>
   (\<forall>tok. tok \<noteq> [] \<and> list_all tag_char tok \<longrightarrow>
      TAG_ID_PATTERN_match (TAG_ID_PREFIX @ tok) = Some tok) \<and>
   (\<forall>data tok. TAG_ID_PATTERN_match data = Some tok \<longrightarrow>
      tok \<noteq> [] \<and> list_all tag_char tok \<and>
      (\<exists>pre rest. data = pre @ tok @ rest \<and> list_all2 atom_matches TAG_ID_PREFIX pre))"
proof (intro conjI allI impI)
  show "TAG_ID_PATTERN_match ''https://www.home-assistant.io/tag/ab12-CD34'' = Some ''ab12-CD34''"
    by (simp add: TAG_ID_PATTERN_match_def TAG_ID_PREFIX_def tag_char_def LF_def)
  show "TAG_ID_PATTERN_match ''https://example.com/other'' = None"
    by (simp add: TAG_ID_PATTERN_match_def TAG_ID_PREFIX_def tag_char_def LF_def)
next
  fix tok assume "tok \<noteq> [] \<and> list_all tag_char tok"
  then show "TAG_ID_PATTERN_match (TAG_ID_PREFIX @ tok) = Some tok"
    using match_complete[OF prefix_matches_itself, of tok "[]"] by simp
next
  fix data tok assume m: "TAG_ID_PATTERN_match data = Some tok"
  from match_sound[OF m] show "tok \<noteq> []" by blast
  from match_sound[OF m] show "list_all tag_char tok" by blast
  from match_sound[OF m]
  show "\<exists>pre rest. data = pre @ tok @ rest \<and> list_all2 atom_matches TAG_ID_PREFIX pre" by blast
qed

theorem identifier_extraction_witness:
  "TAG_ID_PATTERN_match (TAG_ID_PREFIX @ ''0f-A9'') = Some ''0f-A9'' \<and>
   TAG_ID_PATTERN_match ''https://www.home-assistant.io/tag/ab12-CD34'' = Some ''ab12-CD34'' \<and>
   list_all tag_char ''ab12-CD34''"
proof -
  have h: "''0f-A9'' \<noteq> [] \<and> list_all tag_char ''0f-A9''"
    by (simp add: tag_char_def)
  have e: "TAG_ID_PATTERN_match ''https://www.home-assistant.io/tag/ab12-CD34'' = Some ''ab12-CD34''"
    using identifier_extraction by blast
  from identifier_extraction h
  have a: "TAG_ID_PATTERN_match (TAG_ID_PREFIX @ ''0f-A9'') = Some ''0f-A9''"
    by blast
  from identifier_extraction e have "list_all tag_char ''ab12-CD34''"
    by blast
  with a e show ?thesis
    by blast
qed

text \<open>
  C10, as the claim states it, fails for the line feed: a dot of the pattern does not match
  it, so a text with a line feed in the place of a dot yields no identifier.
\<close>

theorem dot_rejects_line_feed:
  "TAG_ID_PATTERN_match (''https://www'' @ [LF] @ ''home-assistant.io/tag/ab12'') = None"
  by (simp add: TAG_ID_PATTERN_match_def TAG_ID_PREFIX_def tag_char_def LF_def)

text \<open>
  C10, amended. Extraction accepts texts that are not the base URL followed by \<open>/tag/\<close> and a
  token: any single character other than a line feed may stand in for each dot of
  \<open>www.home-assistant.io\<close>, and any text may follow the token; the identifier is then the
  token together with the hex digits and hyphens that follow it directly.
  \<open>https://wwwXhome-assistantXio/tag/ab12\<close> and
  \<open>https://www.home-assistant.io/tag/ab12!garbage\<close> both yield \<open>ab12\<close>.
\<close>

theorem extraction_is_loose:
  "(\<forall>c1 c2 tok rest. c1 \<noteq> LF \<and> c2 \<noteq> LF \<and> tok \<noteq> [] \<and> list_all tag_char tok \<longrightarrow>
      TAG_ID_PATTERN_match
        (''https://www'' @ [c1] @ ''home-assistant'' @ [c2] @ ''io/tag/'' @ tok @ rest)
      = Some (tok @ takeWhile tag_char rest)) \<and>
   TAG_ID_PATTERN_match ''https://wwwXhome-assistantXio/tag/ab12'' = Some ''ab12'' \<and>
   TAG_ID_PATTERN_match ''https://www.home-assistant.io/tag/ab12!garbage'' = Some ''ab12''"
proof (intro conjI allI impI)
  fix c1 c2 tok rest
  assume h: "c1 \<noteq> LF \<and> c2 \<noteq> LF \<and> tok \<noteq> [] \<and> list_all tag_char tok"
  then have p: "list_all2 atom_matches TAG_ID_PREFIX
      (''https://www'' @ [c1] @ ''home-assistant'' @ [c2] @ ''io/tag/'')"
    using dots_match_other_characters by blast
  from h have "tok \<noteq> []" and "list_all tag_char tok"
    by blast+
  from match_complete[OF p this, of rest]
  show "TAG_ID_PATTERN_match
        (''https://www'' @ [c1] @ ''home-assistant'' @ [c2] @ ''io/tag/'' @ tok @ rest)
      = Some (tok @ takeWhile tag_char rest)"
    by simp
next
  show "TAG_ID_PATTERN_match ''https://wwwXhome-assistantXio/tag/ab12'' = Some ''ab12''"
    by (simp add: TAG_ID_PATTERN_match_def TAG_ID_PREFIX_def tag_char_def LF_def)
  show "TAG_ID_PATTERN_match ''https://www.home-assistant.io/tag/ab12!garbage'' = Some ''ab12''"
    by (simp add: TAG_ID_PATTERN_match_def TAG_ID_PREFIX_def tag_char_def LF_def)
qed

theorem extraction_is_loose_witness:
  "TAG_ID_PATTERN_match ''https://www_home-assistant/io/tag/7e-01 and more'' = Some ''7e-01''"
proof -
  have h: "CHR ''_'' \<noteq> LF \<and> CHR ''/'' \<noteq> LF \<and> ''7e-01'' \<noteq> [] \<and> list_all tag_char ''7e-01''"
    by (simp add: LF_def tag_char_def)
  from extraction_is_loose h
  have "TAG_ID_PATTERN_match
          (''https://www'' @ [CHR ''_''] @ ''home-assistant'' @ [CHR ''/''] @ ''io/tag/''
             @ ''7e-01'' @ '' and more'')
        = Some (''7e-01'' @ takeWhile tag_char '' and more'')"
    by blast
  then show ?thesis
    by (simp add: tag_char_def)
qed

section \<open>Interleavings\<close>

lemmas main_defs = main_step_def load_config_def open_stream_def inner_check_def
  read_frame_def release_stream_def finally_clause_def raise_in_try_def emit_def

lemmas signal_defs = sigint_def default_int_handler_def installed_handler_def raise_in_try_def

lemmas world_defs = camera_world_def no_camera_world_def late_camera_world_def
  empty_options_world_def no_file_world_def options_def init_def

lemma run_append: "run w (xs @ ys) s = run w ys (run w xs s)"
  by (induction xs arbitrary: s) simp_all

lemma run_invariant:
  assumes "\<And>a s. P s \<Longrightarrow> P (step w a s)" and "P s"
  shows "P (run w sched s)"
  using assms(2) by (induction sched arbitrary: s) (simp_all add: assms(1))

text \<open>The module has no global \<open>frame\<close>, so line 59 raises \<open>NameError\<close>.\<close>

lemma detector_frame_unbound: "detector_frame s = Unbound"
  by (simp add: detector_frame_def module_globals_def)

lemma iteration_unbound:
  "iteration w cfg (detector_frame s) s =
     s\<lparr>dpc := D_done (Died NameError), wakes := Suc (wakes s)\<rparr>"
  by (simp add: iteration_def loop_body_def detector_frame_unbound)

lemma detector_step_simp:
  "detector_step w s =
     (case dpc s of
        D_unstarted \<Rightarrow> s
      | D_check \<Rightarrow> (if exiting s then s\<lparr>dpc := D_done Finished\<rparr> else s\<lparr>dpc := D_wait\<rparr>)
      | D_wait \<Rightarrow> (if cv s then s\<lparr>dpc := D_body\<rparr> else s)
      | D_body \<Rightarrow>
          (case config s of
             Unbound \<Rightarrow> s\<lparr>dpc := D_done (Died UnboundLocalError)\<rparr>
           | Bound cfg \<Rightarrow> s\<lparr>dpc := D_done (Died NameError), wakes := Suc (wakes s)\<rparr>)
      | D_clear \<Rightarrow> s\<lparr>cv := False, dpc := D_check\<rparr>
      | D_done r \<Rightarrow> s)"
  by (simp add: detector_step_def iteration_unbound split: det_pc.splits binding.splits)

lemma sigint_cv: "cv (sigint s) = cv s"
  by (simp add: signal_defs split: main_pc.splits)

lemma sigint_trace: "trace (sigint s) = trace s"
  by (simp add: signal_defs split: main_pc.splits)

lemma detector_trace: "trace (detector_step w s) = trace s"
  by (simp add: detector_step_simp split: det_pc.splits binding.splits)

lemma detector_mpc: "mpc (detector_step w s) = mpc s"
  by (simp add: detector_step_simp split: det_pc.splits binding.splits)

section \<open>Shutdown\<close>

text \<open>
  Once the interrupt has been handled while the detector waits with no frame signalled and the
  main thread is past its first \<open>VideoCapture\<close>, nothing changes that: the main thread runs
  to \<open>join\<close> and stays there, the detector stays in \<open>cv.wait()\<close>.
\<close>

lemma blocked_step:
  assumes "\<not> cv s \<and> dpc s = D_wait \<and> exiting s \<and> handler s \<and> (\<exists>h. stream s = Bound h) \<and>
           mpc s \<in> {M_backoff_fail, M_outer_check, M_finally None, M_join}"
  shows "\<not> cv (step w a s) \<and> dpc (step w a s) = D_wait \<and> exiting (step w a s) \<and>
         handler (step w a s) \<and> (\<exists>h. stream (step w a s) = Bound h) \<and>
         mpc (step w a s) \<in> {M_backoff_fail, M_outer_check, M_finally None, M_join}"
proof (cases a)
  case Main
  with assms show ?thesis
    by (auto simp: main_defs)
next
  case Detector
  with assms show ?thesis
    by (auto simp: detector_step_simp)
next
  case SIGINT
  with assms show ?thesis
    by (auto simp: sigint_def installed_handler_def)
qed

lemma blocked_prefix:
  "run no_camera_world [Main, Main, Main, Detector, Detector, Main, Main, SIGINT] init =
     \<lparr> exiting = True, cv = False, handler = True, mpc = M_backoff_fail,
       config = Bound options, main_frame = None,
       stream = Bound \<lparr>isOpened = False, pending = []\<rparr>, opens = 1,
       dpc = D_wait, last_time = None, last_tag = None, wakes = 0,
       trace = [ThreadStart, VideoCapture False] \<rparr>"
  by (simp add: main_defs detector_step_simp signal_defs world_defs)

text \<open>
  C1. The handler installed at line 86 sets \<open>exiting\<close> and nothing else: an interrupt never
  changes \<open>cv\<close>. With a camera that does not open, the detector waiting and one interrupt
  delivered, every continuation (further interrupts included) leaves the detector in
  \<open>cv.wait()\<close> and the process running.
\<close>

theorem interrupt_leaves_detector_waiting:
  "(\<forall>w s. cv (step w SIGINT s) = cv s) \<and>
   (\<forall>sched.
      dpc (run no_camera_world
             ([Main, Main, Main, Detector, Detector, Main, Main, SIGINT] @ sched) init) = D_wait \<and>
      process_exit (run no_camera_world
             ([Main, Main, Main, Detector, Detector, Main, Main, SIGINT] @ sched) init) = None)"
proof (intro conjI allI)
  fix w s show "cv (step w SIGINT s) = cv s"
    by (simp add: sigint_cv)
next
  fix sched
  let ?s1 = "run no_camera_world [Main, Main, Main, Detector, Detector, Main, Main, SIGINT] init"
  let ?P = "\<lambda>s. \<not> cv s \<and> dpc s = D_wait \<and> exiting s \<and> handler s \<and>
              (\<exists>h. stream s = Bound h) \<and>
              mpc s \<in> {M_backoff_fail, M_outer_check, M_finally None, M_join}"
  have "?P ?s1"
    unfolding blocked_prefix by simp
  then have "?P (run no_camera_world sched ?s1)"
    by (rule run_invariant[where P="?P", rotated]) (rule blocked_step)
  then show "dpc (run no_camera_world
       ([Main, Main, Main, Detector, Detector, Main, Main, SIGINT] @ sched) init) = D_wait"
    and "process_exit (run no_camera_world
       ([Main, Main, Main, Detector, Detector, Main, Main, SIGINT] @ sched) init) = None"
    by (auto simp: run_append process_exit_def)
qed

theorem interrupt_leaves_detector_waiting_witness:
  "cv (step camera_world SIGINT (init\<lparr>handler := True\<rparr>)) = False \<and>
   mpc (run no_camera_world
          ([Main, Main, Main, Detector, Detector, Main, Main, SIGINT]
             @ [Main, Main, Main, Main, Detector, SIGINT, Main]) init) = M_join \<and>
   dpc (run no_camera_world
          ([Main, Main, Main, Detector, Detector, Main, Main, SIGINT]
             @ [Main, Main, Main, Main, Detector, SIGINT, Main]) init) = D_wait \<and>
   process_exit (run no_camera_world
          ([Main, Main, Main, Detector, Detector, Main, Main, SIGINT]
             @ [Main, Main, Main, Main, Detector, SIGINT, Main]) init) = None"
proof -
  have m: "mpc (run no_camera_world
          ([Main, Main, Main, Detector, Detector, Main, Main, SIGINT]
             @ [Main, Main, Main, Main, Detector, SIGINT, Main]) init) = M_join"
    unfolding run_append blocked_prefix
    by (simp add: main_defs detector_step_simp signal_defs world_defs)
  have c: "cv (init\<lparr>handler := True\<rparr>) = False"
    by (simp add: init_def)
  from interrupt_leaves_detector_waiting
  have "cv (step camera_world SIGINT (init\<lparr>handler := True\<rparr>)) = cv (init\<lparr>handler := True\<rparr>)"
    by blast
  then have a: "cv (step camera_world SIGINT (init\<lparr>handler := True\<rparr>)) = False"
    by (simp only: c)
  from interrupt_leaves_detector_waiting
  have b: "dpc (run no_camera_world
          ([Main, Main, Main, Detector, Detector, Main, Main, SIGINT]
             @ [Main, Main, Main, Main, Detector, SIGINT, Main]) init) = D_wait \<and>
      process_exit (run no_camera_world
          ([Main, Main, Main, Detector, Detector, Main, Main, SIGINT]
             @ [Main, Main, Main, Main, Detector, SIGINT, Main]) init) = None"
    by blast
  from a b m show ?thesis
    by blast
qed

text \<open>
  An interrupt that arrives after line 86 and before the first \<open>VideoCapture\<close>: the outer
  loop is not entered, \<open>stream\<close> is still unbound in the \<open>finally\<close> clause, and
  \<open>main\<close> ends with \<open>UnboundLocalError\<close> instead of returning 0.
\<close>

lemma early_interrupt_prefix:
  "run camera_world [Main, Main, Main, SIGINT, Main, Main] init =
     \<lparr> exiting = True, cv = False, handler = True, mpc = M_done (Raised UnboundLocalError),
       config = Bound options, main_frame = None, stream = Unbound, opens = 0,
       dpc = D_check, last_time = None, last_tag = None, wakes = 0,
       trace = [ThreadStart] \<rparr>"
  by (simp add: main_defs detector_step_simp signal_defs world_defs)

lemma main_done_step:
  assumes "mpc s = M_done r \<and> handler s"
  shows "mpc (step w a s) = M_done r \<and> handler (step w a s)"
proof (cases a)
  case Main
  with assms show ?thesis
    by (simp add: main_step_def)
next
  case Detector
  with assms show ?thesis
    by (simp add: detector_step_simp split: det_pc.splits binding.splits)
next
  case SIGINT
  with assms show ?thesis
    by (simp add: sigint_def installed_handler_def)
qed

text \<open>
  C9. With a working camera and a valid configuration, one interrupt delivered after the handler
  is installed and before the first connection attempt makes \<open>main\<close> raise
  \<open>UnboundLocalError\<close>; whatever happens next, the process does not exit with status 0.
\<close>

theorem early_interrupt_not_graceful:
  "mpc (run camera_world [Main, Main, Main, SIGINT, Main, Main] init)
     = M_done (Raised UnboundLocalError) \<and>
   (\<forall>sched. process_exit (run camera_world ([Main, Main, Main, SIGINT, Main, Main] @ sched) init)
      \<noteq> Some 0)"
proof (intro conjI allI)
  show "mpc (run camera_world [Main, Main, Main, SIGINT, Main, Main] init)
     = M_done (Raised UnboundLocalError)"
    unfolding early_interrupt_prefix by simp
next
  fix sched
  let ?s1 = "run camera_world [Main, Main, Main, SIGINT, Main, Main] init"
  let ?P = "\<lambda>s. mpc s = M_done (Raised UnboundLocalError) \<and> handler s"
  have "?P ?s1"
    unfolding early_interrupt_prefix by simp
  then have "?P (run camera_world sched ?s1)"
    by (rule run_invariant[where P="?P", rotated]) (rule main_done_step)
  then show "process_exit (run camera_world ([Main, Main, Main, SIGINT, Main, Main] @ sched) init)
      \<noteq> Some 0"
    by (simp add: run_append process_exit_def)
qed

theorem early_interrupt_not_graceful_witness:
  "process_exit (run camera_world ([Main, Main, Main, SIGINT, Main, Main] @ [Detector, Main]) init)
     = Some 1 \<and>
   process_exit (run camera_world ([Main, Main, Main, SIGINT, Main, Main] @ [Detector, Main]) init)
     \<noteq> Some 0"
proof -
  have "process_exit
      (run camera_world ([Main, Main, Main, SIGINT, Main, Main] @ [Detector, Main]) init) = Some 1"
    unfolding run_append early_interrupt_prefix
    by (simp add: main_defs detector_step_simp process_exit_def)
  with early_interrupt_not_graceful show ?thesis
    by blast
qed

section \<open>The frame hand-off\<close>

lemmas main_splits = binding.splits sum.splits conn.splits list.splits option.splits
  load_outcome.splits

lemma main_step_trace:
  "\<exists>evs. trace (main_step w s) = trace s @ evs \<and> (\<forall>f. Detect f \<notin> set evs)"
  by (cases "mpc s") (auto simp: main_defs Let_def split: main_splits)

lemma main_step_dpc: "mpc s \<noteq> M_start_thread \<Longrightarrow> dpc (main_step w s) = dpc s"
  by (cases "mpc s") (auto simp: main_defs Let_def split: main_splits)

lemma main_step_wakes: "wakes (main_step w s) = wakes s"
  by (cases "mpc s") (auto simp: main_defs Let_def split: main_splits)

lemma main_step_past_start:
  "mpc s \<noteq> M_start_thread \<Longrightarrow> mpc s \<noteq> M_load_config \<Longrightarrow>
   mpc (main_step w s) \<noteq> M_start_thread \<and> mpc (main_step w s) \<noteq> M_load_config"
  by (cases "mpc s") (auto simp: main_defs Let_def split: main_splits)

lemma main_step_started:
  assumes "mpc s = M_load_config \<or> mpc s = M_start_thread \<longrightarrow> dpc s = D_unstarted"
  shows "mpc (main_step w s) = M_load_config \<or> mpc (main_step w s) = M_start_thread
           \<longrightarrow> dpc (main_step w s) = D_unstarted"
  using assms by (cases "mpc s") (auto simp: main_defs Let_def split: main_splits)

lemma step_no_detect:
  assumes "Detect f \<notin> set (trace s)"
  shows "Detect f \<notin> set (trace (step w a s))"
proof (cases a)
  case Main
  obtain evs where "trace (main_step w s) = trace s @ evs" and "\<forall>f. Detect f \<notin> set evs"
    using main_step_trace by blast
  with assms Main show ?thesis
    by simp
next
  case Detector
  with assms show ?thesis
    by (simp add: detector_trace)
next
  case SIGINT
  with assms show ?thesis
    by (simp add: sigint_trace)
qed

lemma published_prefix:
  "run camera_world
     [Main, Main, Main, Detector, Detector, Main, Main, Main, Main, Detector, Detector] init =
     \<lparr> exiting = False, cv = True, handler = True, mpc = M_inner_check,
       config = Bound options, main_frame = Some (Frame 1),
       stream = Bound \<lparr>isOpened = True, pending = [Some (Frame 2)]\<rparr>, opens = 1,
       dpc = D_done (Died NameError), last_time = None, last_tag = None, wakes = 1,
       trace = [ThreadStart, VideoCapture True, Publish (Frame 1)] \<rparr>"
  by (simp add: main_defs detector_step_simp signal_defs world_defs)

text \<open>
  C3. The detector never takes a frame: in no run, under no interleaving, is the decoder called
  on any frame. With a working camera, after the first frame is published and the detector is
  woken, the detector thread has ended with \<open>NameError\<close> and the published frame has not
  been processed.
\<close>

theorem detector_never_takes_a_frame:
  "(\<forall>w sched f. Detect f \<notin> set (trace (run w sched init))) \<and>
   trace (run camera_world
       [Main, Main, Main, Detector, Detector, Main, Main, Main, Main, Detector, Detector] init)
     = [ThreadStart, VideoCapture True, Publish (Frame 1)] \<and>
   dpc (run camera_world
       [Main, Main, Main, Detector, Detector, Main, Main, Main, Main, Detector, Detector] init)
     = D_done (Died NameError)"
proof (intro conjI allI)
  fix w sched f
  have "Detect f \<notin> set (trace init)"
    by (simp add: init_def)
  then show "Detect f \<notin> set (trace (run w sched init))"
    by (rule run_invariant[where P="\<lambda>s. Detect f \<notin> set (trace s)", rotated])
       (rule step_no_detect)
next
  show "trace (run camera_world
       [Main, Main, Main, Detector, Detector, Main, Main, Main, Main, Detector, Detector] init)
     = [ThreadStart, VideoCapture True, Publish (Frame 1)]"
    unfolding published_prefix by simp
  show "dpc (run camera_world
       [Main, Main, Main, Detector, Detector, Main, Main, Main, Main, Detector, Detector] init)
     = D_done (Died NameError)"
    unfolding published_prefix by simp
qed

theorem detector_never_takes_a_frame_witness:
  "Detect (Frame 1) \<notin> set (trace (run camera_world
       [Main, Main, Main, Detector, Detector, Main, Main, Main, Main, Detector, Detector] init)) \<and>
   Publish (Frame 1) \<in> set (trace (run camera_world
       [Main, Main, Main, Detector, Detector, Main, Main, Main, Main, Detector, Detector] init))"
proof -
  from detector_never_takes_a_frame
  have t: "trace (run camera_world
       [Main, Main, Main, Detector, Detector, Main, Main, Main, Main, Detector, Detector] init)
     = [ThreadStart, VideoCapture True, Publish (Frame 1)]"
    by blast
  show ?thesis
    unfolding t by simp
qed

section \<open>Errors in the detector loop\<close>

text \<open>
  The main thread passes lines 76 to 83 once, and the detector is started there; the detector
  never reaches line 73, and it enters the loop body at most once, ending there.
\<close>

lemma one_iteration_step:
  assumes "dpc s \<noteq> D_clear \<and> (wakes s = 0 \<or> (wakes s = 1 \<and> ended (dpc s))) \<and>
           (mpc s = M_load_config \<or> mpc s = M_start_thread \<longrightarrow> dpc s = D_unstarted)"
  shows "dpc (step w a s) \<noteq> D_clear \<and>
         (wakes (step w a s) = 0 \<or> (wakes (step w a s) = 1 \<and> ended (dpc (step w a s)))) \<and>
         (mpc (step w a s) = M_load_config \<or> mpc (step w a s) = M_start_thread
            \<longrightarrow> dpc (step w a s) = D_unstarted)"
proof (cases a)
  case Main
  show ?thesis
  proof (cases "mpc s = M_start_thread")
    case True
    with assms have "dpc s = D_unstarted" and "wakes s = 0"
      by auto
    with True Main show ?thesis
      by (simp add: main_step_def emit_def)
  next
    case False
    from assms have "mpc (main_step w s) = M_load_config \<or> mpc (main_step w s) = M_start_thread
           \<longrightarrow> dpc (main_step w s) = D_unstarted"
      by (intro main_step_started) blast
    with assms False Main show ?thesis
      by (simp add: main_step_dpc main_step_wakes)
  qed
next
  case Detector
  with assms show ?thesis
    by (cases "dpc s") (auto simp: detector_step_simp split: binding.splits)
next
  case SIGINT
  with assms show ?thesis
    by (cases "mpc s") (auto simp: signal_defs)
qed

lemma died_step:
  assumes "dpc s = D_done r \<and> mpc s \<noteq> M_start_thread \<and> mpc s \<noteq> M_load_config"
  shows "dpc (step w a s) = D_done r \<and> mpc (step w a s) \<noteq> M_start_thread \<and>
         mpc (step w a s) \<noteq> M_load_config"
proof (cases a)
  case Main
  with assms show ?thesis
    using main_step_past_start[of s w] by (simp add: main_step_dpc)
next
  case Detector
  with assms show ?thesis
    by (simp add: detector_step_simp)
next
  case SIGINT
  with assms show ?thesis
    by (cases "mpc s") (auto simp: signal_defs)
qed

text \<open>
  C2. The detector loop does not survive its first frame. Reaching line 59 with the
  configuration bound always ends the thread with \<open>NameError\<close>; in no run does the detector
  reach line 73 or start a second iteration; and with a working camera, once the first frame has
  woken the detector it is dead for good while the main thread goes on.
\<close>

theorem first_frame_ends_detector_loop:
  "(\<forall>w s cfg. detector_step w (s\<lparr>dpc := D_body, config := Bound cfg\<rparr>)
       = s\<lparr>dpc := D_done (Died NameError), config := Bound cfg, wakes := Suc (wakes s)\<rparr>) \<and>
   (\<forall>w sched. dpc (run w sched init) \<noteq> D_clear \<and> wakes (run w sched init) \<le> 1) \<and>
   (\<forall>sched. dpc (run camera_world
       ([Main, Main, Main, Detector, Detector, Main, Main, Main, Main, Detector, Detector] @ sched)
       init) = D_done (Died NameError))"
proof (intro conjI allI)
  fix w s cfg
  show "detector_step w (s\<lparr>dpc := D_body, config := Bound cfg\<rparr>)
       = s\<lparr>dpc := D_done (Died NameError), config := Bound cfg, wakes := Suc (wakes s)\<rparr>"
    by (simp add: detector_step_simp)
next
  fix w sched
  let ?P = "\<lambda>s. dpc s \<noteq> D_clear \<and> (wakes s = 0 \<or> (wakes s = 1 \<and> ended (dpc s))) \<and>
           (mpc s = M_load_config \<or> mpc s = M_start_thread \<longrightarrow> dpc s = D_unstarted)"
  have "?P init"
    by (simp add: init_def)
  then have p: "?P (run w sched init)"
    by (rule run_invariant[where P="?P", rotated]) (rule one_iteration_step)
  from p show "dpc (run w sched init) \<noteq> D_clear"
    by blast
  from p show "wakes (run w sched init) \<le> 1"
    by auto
next
  fix sched
  let ?s1 = "run camera_world
      [Main, Main, Main, Detector, Detector, Main, Main, Main, Main, Detector, Detector] init"
  let ?P = "\<lambda>s. dpc s = D_done (Died NameError) \<and> mpc s \<noteq> M_start_thread \<and>
              mpc s \<noteq> M_load_config"
  have "?P ?s1"
    unfolding published_prefix by simp
  then have "?P (run camera_world sched ?s1)"
    by (rule run_invariant[where P="?P", rotated]) (rule died_step)
  then show "dpc (run camera_world
       ([Main, Main, Main, Detector, Detector, Main, Main, Main, Main, Detector, Detector] @ sched)
       init) = D_done (Died NameError)"
    by (simp add: run_append)
qed

theorem first_frame_ends_detector_loop_witness:
  "dpc (run camera_world
       ([Main, Main, Main, Detector, Detector, Main, Main, Main, Main, Detector, Detector]
          @ [Main, Main, Detector, Detector]) init) = D_done (Died NameError) \<and>
   trace (run camera_world
       ([Main, Main, Main, Detector, Detector, Main, Main, Main, Main, Detector, Detector]
          @ [Main, Main, Detector, Detector]) init)
     = [ThreadStart, VideoCapture True, Publish (Frame 1), Publish (Frame 2)]"
proof -
  have "trace (run camera_world
       ([Main, Main, Main, Detector, Detector, Main, Main, Main, Main, Detector, Detector]
          @ [Main, Main, Detector, Detector]) init)
     = [ThreadStart, VideoCapture True, Publish (Frame 1), Publish (Frame 2)]"
    unfolding run_append published_prefix
    by (simp add: main_defs detector_step_simp)
  with first_frame_ends_detector_loop show ?thesis
    by blast
qed

section \<open>Configuration\<close>

text \<open>
  After \<open>load_config\<close> has called \<open>sys.exit(1)\<close> nothing moves any more: there is no
  detector thread, and the main thread has ended.
\<close>

lemma exited_step:
  assumes "mpc s = M_done r \<and> dpc s = D_unstarted \<and> \<not> handler s"
  shows "step w a s = s"
  using assms
  by (cases a) (simp_all add: main_step_def detector_step_simp signal_defs)

lemma exited_run:
  assumes "mpc s = M_done r \<and> dpc s = D_unstarted \<and> \<not> handler s"
  shows "run w sched s = s"
  by (induction sched) (simp_all add: exited_step[OF assms])

lemma load_failure:
  assumes "load_result w = FileNotFound \<or> load_result w = JSONDecodeError"
  shows "mpc (main_step w init) = M_done (Raised (SystemExit 1)) \<and>
         dpc (main_step w init) = D_unstarted \<and> \<not> handler (main_step w init) \<and>
         ThreadStart \<notin> set (trace (main_step w init))"
  using assms by (auto simp: main_step_def load_config_def emit_def init_def)

lemma never_started_step:
  assumes "load_result w = FileNotFound \<or> load_result w = JSONDecodeError"
    and "dpc s = D_unstarted \<and> \<not> handler s \<and> (mpc s = M_load_config \<or> (\<exists>r. mpc s = M_done r))"
  shows "dpc (step w a s) = D_unstarted \<and> \<not> handler (step w a s) \<and>
         (mpc (step w a s) = M_load_config \<or> (\<exists>r. mpc (step w a s) = M_done r))"
proof (cases a)
  case Main
  with assms show ?thesis
    by (auto simp: main_step_def load_config_def emit_def)
next
  case Detector
  with assms show ?thesis
    by (auto simp: detector_step_simp)
next
  case SIGINT
  with assms show ?thesis
    by (auto simp: signal_defs)
qed

text \<open>
  C6, as the claim states it, fails for a configuration that parses but lacks the recognized
  options: with the empty object the detector thread is started, and the process has not
  exited, neither then nor after the main thread has ended with an exception.
\<close>

theorem missing_option_starts_detector:
  "dpc (run empty_options_world [Main, Main] init) = D_check \<and>
   ThreadStart \<in> set (trace (run empty_options_world [Main, Main] init)) \<and>
   process_exit (run empty_options_world [Main, Main] init) = None \<and>
   mpc (run empty_options_world [Main, Main, Main, Main, Main, Main] init)
     = M_done (Raised UnboundLocalError) \<and>
   process_exit (run empty_options_world [Main, Main, Main, Main, Main, Main] init) = None"
  by (simp add: main_defs world_defs process_exit_def)

text \<open>
  C6, amended. When the configuration file is missing or is not valid JSON, startup is fatal:
  the first step of the main thread ends the process with status 1, the detector thread is
  not started then, and under no interleaving is it ever started. (A configuration that parses
  but lacks a recognized option is not covered.)
\<close>

theorem missing_or_malformed_config_is_fatal:
  assumes "load_result w = FileNotFound \<or> load_result w = JSONDecodeError"
  shows "process_exit (run w (Main # sched) init) = Some 1 \<and>
         dpc (run w (Main # sched) init) = D_unstarted \<and>
         ThreadStart \<notin> set (trace (run w (Main # sched) init)) \<and>
         (\<forall>sched'. dpc (run w sched' init) = D_unstarted)"
proof (intro conjI allI)
  let ?s1 = "main_step w init"
  have s1: "mpc ?s1 = M_done (Raised (SystemExit 1)) \<and> dpc ?s1 = D_unstarted \<and> \<not> handler ?s1"
    using load_failure[OF assms] by blast
  have r: "run w (Main # sched) init = ?s1"
    using exited_run[OF s1] by simp
  show "process_exit (run w (Main # sched) init) = Some 1"
    unfolding r using s1 by (simp add: process_exit_def)
  show "dpc (run w (Main # sched) init) = D_unstarted"
    unfolding r using s1 by simp
  show "ThreadStart \<notin> set (trace (run w (Main # sched) init))"
    unfolding r using load_failure[OF assms] by blast
next
  fix sched'
  let ?P = "\<lambda>s. dpc s = D_unstarted \<and> \<not> handler s \<and>
              (mpc s = M_load_config \<or> (\<exists>r. mpc s = M_done r))"
  have "?P init"
    by (simp add: init_def)
  then have "?P (run w sched' init)"
    by (rule run_invariant[where P="?P", rotated]) (rule never_started_step[OF assms])
  then show "dpc (run w sched' init) = D_unstarted"
    by blast
qed

theorem missing_or_malformed_config_is_fatal_witness:
  "load_result no_file_world = FileNotFound \<and>
   process_exit (run no_file_world [Main, Detector, SIGINT, Main] init) = Some 1 \<and>
   dpc (run no_file_world [Main, Detector, SIGINT, Main] init) = D_unstarted \<and>
   dpc (run no_file_world [Detector, SIGINT, Main] init) = D_unstarted"
proof -
  have h: "load_result no_file_world = FileNotFound"
    by (simp add: world_defs)
  then have "load_result no_file_world = FileNotFound \<or> load_result no_file_world = JSONDecodeError"
    by blast
  from missing_or_malformed_config_is_fatal[OF this, of "[Detector, SIGINT, Main]"] h
  show ?thesis
    by blast
qed

section \<open>Reconnection\<close>

lemma failed_attempts_Suc:
  "failed_attempts (Suc i) =
     failed_attempts i @ [VideoCapture False, Log ERROR ''Failed to open camera stream.'', Sleep 5]"
  by (induction i) (simp_all add: failed_attempts_def)

lemma failed_attempts_add: "failed_attempts (i + j) = failed_attempts i @ failed_attempts j"
  by (simp add: failed_attempts_def replicate_add)

lemma failed_attempts_no_publish: "Publish f \<notin> set (failed_attempts i)"
  by (induction i) (simp_all add: failed_attempts_def)

lemma detector_step_supervisor:
  "mpc (detector_step w s) = mpc s \<and> trace (detector_step w s) = trace s \<and>
   opens (detector_step w s) = opens s \<and> exiting (detector_step w s) = exiting s \<and>
   config (detector_step w s) = config s"
  by (cases "dpc s") (auto simp: detector_step_simp split: binding.splits)

lemma supervisor_detector_step:
  assumes "supervisor_at cfg N n s"
  shows "supervisor_at cfg N n (detector_step w s)"
  using assms
proof cases
  case at_load
  then show ?thesis
    by (simp add: supervisor_at.at_load detector_step_supervisor)
next
  case at_start
  then show ?thesis
    by (simp add: supervisor_at.at_start[simplified] detector_step_supervisor)
next
  case at_handler
  then show ?thesis
    by (simp add: supervisor_at.at_handler detector_step_supervisor)
next
  case (at_check i)
  then show ?thesis
    by (simp add: supervisor_at.at_check detector_step_supervisor)
next
  case (at_open i)
  then show ?thesis
    by (simp add: supervisor_at.at_open detector_step_supervisor)
next
  case (at_backoff i)
  then show ?thesis
    by (simp add: supervisor_at.at_backoff detector_step_supervisor)
next
  case (at_streaming rest)
  then show ?thesis
    by (simp add: supervisor_at.at_streaming detector_step_supervisor)
qed

lemma main_step_extends: "\<exists>evs. trace (main_step w s) = trace s @ evs"
  using main_step_trace by blast

lemma supervisor_main_step:
  assumes w: "load_result w = Loaded cfg" "subscript cfg ''camera_rtsp_stream'' = Inr address"
      "\<forall>i<N. capture w i = OpenFails" "capture w N = Opens fs"
    and s: "supervisor_at cfg N n s"
  shows "supervisor_at cfg N (Suc n) (main_step w s)"
  using s
proof cases
  case at_load
  have "supervisor_at cfg N 1 (main_step w s)"
    by (rule supervisor_at.at_start) (use at_load w in \<open>simp_all add: main_step_def load_config_def\<close>)
  with at_load show ?thesis
    by simp
next
  case at_start
  have "supervisor_at cfg N 2 (main_step w s)"
    by (rule supervisor_at.at_handler) (use at_start in \<open>simp_all add: main_step_def emit_def\<close>)
  with at_start show ?thesis
    by (simp add: numeral_2_eq_2)
next
  case at_handler
  have "supervisor_at cfg N (3 + 3 * 0) (main_step w s)"
    by (rule supervisor_at.at_check)
       (use at_handler in \<open>simp_all add: main_step_def failed_attempts_def\<close>)
  with at_handler show ?thesis
    by simp
next
  case (at_check i)
  have "supervisor_at cfg N (4 + 3 * i) (main_step w s)"
    by (rule supervisor_at.at_open) (use at_check in \<open>simp_all add: main_step_def\<close>)
  with at_check show ?thesis
    by simp
next
  case (at_open i)
  show ?thesis
  proof (cases "i < N")
    case True
    with w have c: "capture w i = OpenFails"
      by blast
    have "supervisor_at cfg N (5 + 3 * i) (main_step w s)"
      by (rule supervisor_at.at_backoff)
         (use at_open w c True in \<open>simp_all add: main_step_def open_stream_def emit_def\<close>)
    with at_open show ?thesis
      by simp
  next
    case False
    with at_open have i: "i = N"
      by simp
    have t: "trace (main_step w s) = reconnection N @ []"
      using at_open w i by (simp add: main_step_def open_stream_def emit_def reconnection_def)
    have "supervisor_at cfg N (Suc n) (main_step w s)"
      by (rule supervisor_at.at_streaming[OF _ t]) (use at_open i in simp)
    then show ?thesis .
  qed
next
  case (at_backoff i)
  have "supervisor_at cfg N (3 + 3 * Suc i) (main_step w s)"
    by (rule supervisor_at.at_check)
       (use at_backoff in \<open>simp_all add: main_step_def emit_def failed_attempts_Suc\<close>)
  with at_backoff show ?thesis
    by simp
next
  case (at_streaming rest)
  obtain evs where "trace (main_step w s) = trace s @ evs"
    using main_step_extends by blast
  with at_streaming have t: "trace (main_step w s) = reconnection N @ (rest @ evs)"
    by simp
  show ?thesis
    by (rule supervisor_at.at_streaming[OF _ t]) (use at_streaming in simp)
qed

lemma supervisor_run:
  assumes w: "load_result w = Loaded cfg" "subscript cfg ''camera_rtsp_stream'' = Inr address"
      "\<forall>i<N. capture w i = OpenFails" "capture w N = Opens fs"
  shows "SIGINT \<notin> set sched \<Longrightarrow> supervisor_at cfg N n s \<Longrightarrow>
         supervisor_at cfg N (n + count_list sched Main) (run w sched s)"
proof (induction sched arbitrary: n s)
  case Nil
  then show ?case by simp
next
  case (Cons a sched)
  show ?case
  proof (cases a)
    case Main
    from Cons.prems have "supervisor_at cfg N (Suc n) (main_step w s)"
      by (intro supervisor_main_step[OF w]) simp
    with Cons.prems Cons.IH[of "Suc n" "main_step w s"] Main show ?thesis
      by simp
  next
    case Detector
    from Cons.prems have "supervisor_at cfg N n (detector_step w s)"
      by (intro supervisor_detector_step) simp
    with Cons.prems Cons.IH[of n "detector_step w s"] Detector show ?thesis
      by simp
  next
    case SIGINT
    with Cons.prems show ?thesis
      by simp
  qed
qed

lemma supervisor_comparable:
  assumes "supervisor_at cfg N n s"
  shows "(\<exists>rest. reconnection N = trace s @ rest) \<or> (\<exists>rest. trace s = reconnection N @ rest)"
  using assms
proof cases
  case at_load
  then have "reconnection N = trace s @ reconnection N"
    by simp
  then show ?thesis
    by blast
next
  case at_start
  then have "reconnection N = trace s @ reconnection N"
    by simp
  then show ?thesis
    by blast
next
  case at_handler
  then have "reconnection N = trace s @ (failed_attempts N @ [VideoCapture True])"
    by (simp add: reconnection_def)
  then show ?thesis
    by blast
next
  case (at_check i)
  have "failed_attempts N = failed_attempts i @ failed_attempts (N - i)"
    using failed_attempts_add[of i "N - i"] at_check(2) by simp
  with at_check
  have "reconnection N = trace s @ (failed_attempts (N - i) @ [VideoCapture True])"
    by (simp add: reconnection_def)
  then show ?thesis
    by blast
next
  case (at_open i)
  have "failed_attempts N = failed_attempts i @ failed_attempts (N - i)"
    using failed_attempts_add[of i "N - i"] at_open(2) by simp
  with at_open
  have "reconnection N = trace s @ (failed_attempts (N - i) @ [VideoCapture True])"
    by (simp add: reconnection_def)
  then show ?thesis
    by blast
next
  case (at_backoff i)
  have "failed_attempts N = failed_attempts (Suc i) @ failed_attempts (N - Suc i)"
    using failed_attempts_add[of "Suc i" "N - Suc i"] at_backoff(2) by simp
  with at_backoff
  have "reconnection N = trace s @
      ([Log ERROR ''Failed to open camera stream.'', Sleep 5]
         @ failed_attempts (N - Suc i) @ [VideoCapture True])"
    by (simp add: reconnection_def failed_attempts_Suc)
  then show ?thesis
    by blast
next
  case (at_streaming rest)
  then show ?thesis
    by blast
qed

lemma supervisor_published:
  assumes "supervisor_at cfg N n s" and "Publish f \<in> set (trace s)"
  shows "\<exists>rest. trace s = reconnection N @ rest"
  using assms(1)
proof cases
  case (at_streaming rest)
  then show ?thesis
    by blast
qed (use assms(2) in \<open>simp_all add: failed_attempts_no_publish\<close>)

lemma supervisor_arrived:
  assumes "supervisor_at cfg N n s" and "3 * N + 5 \<le> n"
  shows "\<exists>rest. trace s = reconnection N @ rest"
  using assms(1)
proof cases
  case (at_streaming rest)
  then show ?thesis
    by blast
qed (use assms(2) in simp_all)

lemma open_attempts_failed: "length (filter is_open_attempt (failed_attempts k)) = k"
  by (induction k) (simp_all add: failed_attempts_Suc, simp add: failed_attempts_def)

lemma sleeps_failed: "length (filter (\<lambda>e. e = Sleep 5) (failed_attempts k)) = k"
  by (induction k) (simp_all add: failed_attempts_Suc, simp add: failed_attempts_def)

text \<open>
  C7. The configuration loads and names the stream, the first \<open>N\<close> attempts to open the
  stream fail and attempt \<open>N + 1\<close> succeeds, and no interrupt arrives. Then under every
  interleaving the events so far are an initial part of \<open>reconnection N\<close> or continue it;
  they continue it as soon as a frame has been published, and as soon as the main thread has
  taken \<open>3 * N + 5\<close> steps. \<open>reconnection N\<close> holds exactly \<open>N + 1\<close> open attempts,
  \<open>N\<close> sleeps of five seconds (one after each failed attempt) and no published frame.
\<close>

theorem reconnection_after_failures:
  assumes "load_result w = Loaded cfg"
    and "subscript cfg ''camera_rtsp_stream'' = Inr address"
    and "\<forall>i<N. capture w i = OpenFails"
    and "capture w N = Opens fs"
    and "SIGINT \<notin> set sched"
  shows "((\<exists>rest. reconnection N = trace (run w sched init) @ rest) \<or>
          (\<exists>rest. trace (run w sched init) = reconnection N @ rest)) \<and>
         (\<forall>f. Publish f \<in> set (trace (run w sched init)) \<longrightarrow>
            (\<exists>rest. trace (run w sched init) = reconnection N @ rest)) \<and>
         (3 * N + 5 \<le> count_list sched Main \<longrightarrow>
            (\<exists>rest. trace (run w sched init) = reconnection N @ rest)) \<and>
         length (filter is_open_attempt (reconnection N)) = N + 1 \<and>
         length (filter (\<lambda>e. e = Sleep 5) (reconnection N)) = N \<and>
         (\<forall>f. Publish f \<notin> set (reconnection N))"
proof -
  have "supervisor_at cfg N 0 init"
    by (rule supervisor_at.at_load) (simp_all add: init_def)
  from supervisor_run[OF assms(1-4) assms(5) this]
  have at: "supervisor_at cfg N (count_list sched Main) (run w sched init)"
    by simp
  have 1: "(\<exists>rest. reconnection N = trace (run w sched init) @ rest) \<or>
          (\<exists>rest. trace (run w sched init) = reconnection N @ rest)"
    using supervisor_comparable[OF at] .
  have 2: "\<forall>f. Publish f \<in> set (trace (run w sched init)) \<longrightarrow>
            (\<exists>rest. trace (run w sched init) = reconnection N @ rest)"
    using supervisor_published[OF at] by blast
  have 3: "3 * N + 5 \<le> count_list sched Main \<longrightarrow>
            (\<exists>rest. trace (run w sched init) = reconnection N @ rest)"
    using supervisor_arrived[OF at] by blast
  have 4: "length (filter is_open_attempt (reconnection N)) = N + 1"
    by (simp add: reconnection_def open_attempts_failed)
  have 5: "length (filter (\<lambda>e. e = Sleep 5) (reconnection N)) = N"
    by (simp add: reconnection_def sleeps_failed)
  have 6: "\<forall>f. Publish f \<notin> set (reconnection N)"
    by (simp add: reconnection_def failed_attempts_no_publish)
  from 1 2 3 4 5 6 show ?thesis
    by blast
qed

theorem reconnection_after_failures_witness:
  "load_result late_camera_world = Loaded options \<and>
   subscript options ''camera_rtsp_stream'' = Inr ''rtsp://camera/stream'' \<and>
   capture late_camera_world 0 = OpenFails \<and> capture late_camera_world 1 = OpenFails \<and>
   capture late_camera_world 2 = Opens [Some (Frame 1)] \<and>
   (\<exists>rest. trace (run late_camera_world
        [Main, Main, Detector, Main, Main, Main, Main, Detector, Main, Main, Main, Main, Main]
        init) = reconnection 2 @ rest) \<and>
   reconnection 2 =
     [ThreadStart,
      VideoCapture False, Log ERROR ''Failed to open camera stream.'', Sleep 5,
      VideoCapture False, Log ERROR ''Failed to open camera stream.'', Sleep 5,
      VideoCapture True]"
proof -
  have a: "load_result late_camera_world = Loaded options"
    by (simp add: world_defs)
  have b: "subscript options ''camera_rtsp_stream'' = Inr ''rtsp://camera/stream''"
    by (simp add: options_def)
  have c: "\<forall>i<2. capture late_camera_world i = OpenFails"
    by (simp add: world_defs)
  have d: "capture late_camera_world 2 = Opens [Some (Frame 1)]"
    by (simp add: world_defs)
  have e: "SIGINT \<notin> set
      [Main, Main, Detector, Main, Main, Main, Main, Detector, Main, Main, Main, Main, Main]"
    by simp
  have n: "3 * 2 + 5 \<le> count_list
      [Main, Main, Detector, Main, Main, Main, Main, Detector, Main, Main, Main, Main, Main] Main"
    by simp
  have r: "reconnection 2 =
     [ThreadStart,
      VideoCapture False, Log ERROR ''Failed to open camera stream.'', Sleep 5,
      VideoCapture False, Log ERROR ''Failed to open camera stream.'', Sleep 5,
      VideoCapture True]"
    by (simp add: reconnection_def failed_attempts_def numeral_2_eq_2)
  from reconnection_after_failures[OF a b c d e] n
  have "\<exists>rest. trace (run late_camera_world
        [Main, Main, Detector, Main, Main, Main, Main, Detector, Main, Main, Main, Main, Main]
        init) = reconnection 2 @ rest"
    by blast
  moreover have "capture late_camera_world 0 = OpenFails \<and> capture late_camera_world 1 = OpenFails"
    using c by simp
  ultimately show ?thesis
    using a b d r by blast
qed

section \<open>Debouncing\<close>

lemma no_match_on_empty_text: "TAG_ID_PATTERN_match [] = None"
  by (simp add: TAG_ID_PATTERN_match_def TAG_ID_PREFIX_def)

lemmas iteration_defs = iteration_def loop_body_def try_body_def send_tag_event_def emit_def
  posts_def Let_def

text \<open>An iteration on a frame that shows a tag, when the gate lets the tag through.\<close>

lemma iteration_emits:
  assumes "detectAndDecode w f = Decoded data" and "TAG_ID_PATTERN_match data = Some tag"
    and "debounce_gate (last_time s) (last_tag s) tag (now w (wakes s)) = Inr True"
    and "subscript cfg ''tag_event_device_id'' = Inr dev"
  shows "posts (iteration w cfg (Bound (Some f)) s) = posts s @ [Post tag dev] \<and>
         dpc (iteration w cfg (Bound (Some f)) s) = D_clear \<and>
         wakes (iteration w cfg (Bound (Some f)) s) = Suc (wakes s)"
proof -
  from assms(2) have "data \<noteq> []"
    using no_match_on_empty_text by auto
  with assms show ?thesis
    by (cases "post w (wakes s)") (simp_all add: iteration_defs)
qed

lemma iteration_emits_state:
  assumes "detectAndDecode w f = Decoded data" and "TAG_ID_PATTERN_match data = Some tag"
    and "debounce_gate (last_time s) (last_tag s) tag (now w (wakes s)) = Inr True"
    and "subscript cfg ''tag_event_device_id'' = Inr dev"
    and "post w (wakes s) \<noteq> PostOtherException"
  shows "last_time (iteration w cfg (Bound (Some f)) s) = Some (now w (wakes s)) \<and>
         last_tag (iteration w cfg (Bound (Some f)) s) = Some tag"
proof -
  from assms(2) have "data \<noteq> []"
    using no_match_on_empty_text by auto
  with assms show ?thesis
    by (cases "post w (wakes s)") (simp_all add: iteration_defs)
qed

text \<open>An iteration on a frame that shows a tag, when the gate holds the tag back.\<close>

lemma iteration_suppresses:
  assumes "detectAndDecode w f = Decoded data" and "TAG_ID_PATTERN_match data = Some tag"
    and "debounce_gate (last_time s) (last_tag s) tag (now w (wakes s)) = Inr False"
  shows "posts (iteration w cfg (Bound (Some f)) s) = posts s \<and>
         dpc (iteration w cfg (Bound (Some f)) s) = D_clear"
proof -
  from assms(2) have "data \<noteq> []"
    using no_match_on_empty_text by auto
  with assms show ?thesis
    by (simp add: iteration_defs)
qed

lemma gate_after_report:
  "debounce_gate (Some t) prev tag c = Inr (prev \<noteq> Some tag \<or> DEBOUNCE_PERIOD < c - t)"
  by (auto simp: debounce_gate_def)

lemma gate_new_tag: "prev \<noteq> Some tag \<Longrightarrow> debounce_gate t prev tag c = Inr True"
  by (simp add: debounce_gate_def)

lemma two_reports:
  assumes f1: "detectAndDecode w f1 = Decoded d1" "TAG_ID_PATTERN_match d1 = Some X"
    and f2: "detectAndDecode w f2 = Decoded d2" "TAG_ID_PATTERN_match d2 = Some X"
    and dev: "subscript cfg ''tag_event_device_id'' = Inr dev"
    and ok: "post w (wakes s) \<noteq> PostOtherException"
    and new: "last_tag s \<noteq> Some X"
  shows "posts (iteration w cfg (Bound (Some f2)) (iteration w cfg (Bound (Some f1)) s)) =
           posts s @ (if DEBOUNCE_PERIOD < now w (Suc (wakes s)) - now w (wakes s)
                      then [Post X dev, Post X dev] else [Post X dev])"
proof -
  let ?s1 = "iteration w cfg (Bound (Some f1)) s"
  have g1: "debounce_gate (last_time s) (last_tag s) X (now w (wakes s)) = Inr True"
    using new by (rule gate_new_tag)
  have p1: "posts ?s1 = posts s @ [Post X dev]" and w1: "wakes ?s1 = Suc (wakes s)"
    using iteration_emits[OF f1 g1 dev] by simp_all
  have st: "last_time ?s1 = Some (now w (wakes s))" "last_tag ?s1 = Some X"
    using iteration_emits_state[OF f1 g1 dev ok] by simp_all
  have g2: "debounce_gate (last_time ?s1) (last_tag ?s1) X (now w (wakes ?s1))
      = Inr (DEBOUNCE_PERIOD < now w (Suc (wakes s)) - now w (wakes s))"
    unfolding st w1 by (simp add: gate_after_report)
  show ?thesis
  proof (cases "DEBOUNCE_PERIOD < now w (Suc (wakes s)) - now w (wakes s)")
    case True
    with g2 have "debounce_gate (last_time ?s1) (last_tag ?s1) X (now w (wakes ?s1)) = Inr True"
      by simp
    from iteration_emits[OF f2 this dev] p1 True show ?thesis
      by simp
  next
    case False
    with g2 have "debounce_gate (last_time ?s1) (last_tag ?s1) X (now w (wakes ?s1)) = Inr False"
      by simp
    from iteration_suppresses[OF f2 this] p1 False show ?thesis
      by simp
  qed
qed

text \<open>
  C4, as the claim states it, fails at exactly five seconds: the gate holds back an identifier
  reported again five seconds after it was dispatched, and two frames showing the same tag
  five seconds apart give one dispatch, not two.
\<close>

theorem no_dispatch_at_exactly_five_seconds:
  "debounce_gate (Some 0) (Some ''ab12'') ''ab12'' 5000000 = Inr False \<and>
   now camera_world 1 - now camera_world 0 = DEBOUNCE_PERIOD \<and>
   posts (iteration camera_world options (Bound (Some (Frame 2)))
           (iteration camera_world options (Bound (Some (Frame 1))) init))
     = [Post ''ab12'' ''door'']"
  by (simp add: iteration_defs world_defs debounce_gate_def DEBOUNCE_PERIOD_def
      TAG_ID_PATTERN_match_def TAG_ID_PREFIX_def tag_char_def LF_def)

text \<open>
  C4, amended. Once an identifier has been dispatched, the gate emits exactly when the
  candidate differs from the last dispatched identifier or more than five seconds have passed
  since that dispatch. Two frames showing the same, new identifier give two dispatches when
  the second is seen more than five seconds after the first, and one dispatch otherwise (at
  five seconds exactly too), provided the first call of the sink does not raise an exception
  other than a \<open>RequestException\<close>.
\<close>

theorem debounce_gate_emits:
  "(\<forall>t prev tag c.
      debounce_gate (Some t) prev tag c = Inr (prev \<noteq> Some tag \<or> DEBOUNCE_PERIOD < c - t)) \<and>
   DEBOUNCE_PERIOD = 5 * 1000000 \<and>
   (\<forall>w cfg f1 f2 d1 d2 X dev s.
      detectAndDecode w f1 = Decoded d1 \<and> TAG_ID_PATTERN_match d1 = Some X \<and>
      detectAndDecode w f2 = Decoded d2 \<and> TAG_ID_PATTERN_match d2 = Some X \<and>
      subscript cfg ''tag_event_device_id'' = Inr dev \<and>
      post w (wakes s) \<noteq> PostOtherException \<and> last_tag s \<noteq> Some X \<longrightarrow>
      posts (iteration w cfg (Bound (Some f2)) (iteration w cfg (Bound (Some f1)) s)) =
        posts s @ (if DEBOUNCE_PERIOD < now w (Suc (wakes s)) - now w (wakes s)
                   then [Post X dev, Post X dev] else [Post X dev]))"
proof (intro conjI allI impI)
  fix t prev tag c
  show "debounce_gate (Some t) prev tag c = Inr (prev \<noteq> Some tag \<or> DEBOUNCE_PERIOD < c - t)"
    by (rule gate_after_report)
next
  show "DEBOUNCE_PERIOD = 5 * 1000000"
    by (simp add: DEBOUNCE_PERIOD_def)
next
  fix w :: world and s :: state and cfg f1 f2 d1 d2 X dev
  assume h: "detectAndDecode w f1 = Decoded d1 \<and> TAG_ID_PATTERN_match d1 = Some X \<and>
      detectAndDecode w f2 = Decoded d2 \<and> TAG_ID_PATTERN_match d2 = Some X \<and>
      subscript cfg ''tag_event_device_id'' = Inr dev \<and>
      post w (wakes s) \<noteq> PostOtherException \<and> last_tag s \<noteq> Some X"
  then show "posts (iteration w cfg (Bound (Some f2)) (iteration w cfg (Bound (Some f1)) s)) =
        posts s @ (if DEBOUNCE_PERIOD < now w (Suc (wakes s)) - now w (wakes s)
                   then [Post X dev, Post X dev] else [Post X dev])"
    by (intro two_reports) blast+
qed

theorem debounce_gate_emits_witness:
  "debounce_gate (Some 0) (Some ''ab12'') ''ab12'' 5000001 = Inr True \<and>
   debounce_gate (Some 0) (Some ''ab12'') ''cd34'' 1 = Inr True \<and>
   posts (iteration (camera_world\<lparr>now := \<lambda>k. int k * 5000001\<rparr>) options (Bound (Some (Frame 2)))
           (iteration (camera_world\<lparr>now := \<lambda>k. int k * 5000001\<rparr>) options
              (Bound (Some (Frame 1))) init))
     = [Post ''ab12'' ''door'', Post ''ab12'' ''door'']"
proof -
  let ?w = "camera_world\<lparr>now := \<lambda>k. int k * 5000001\<rparr>"
  have h: "detectAndDecode ?w (Frame 1) = Decoded ''https://www.home-assistant.io/tag/ab12'' \<and>
      TAG_ID_PATTERN_match ''https://www.home-assistant.io/tag/ab12'' = Some ''ab12'' \<and>
      detectAndDecode ?w (Frame 2) = Decoded ''https://www.home-assistant.io/tag/ab12'' \<and>
      TAG_ID_PATTERN_match ''https://www.home-assistant.io/tag/ab12'' = Some ''ab12'' \<and>
      subscript options ''tag_event_device_id'' = Inr ''door'' \<and>
      post ?w (wakes init) \<noteq> PostOtherException \<and> last_tag init \<noteq> Some ''ab12''"
    by (simp add: world_defs TAG_ID_PATTERN_match_def TAG_ID_PREFIX_def tag_char_def LF_def)
  have g: "debounce_gate (Some 0) (Some ''ab12'') ''ab12'' 5000001
             = Inr (Some ''ab12'' \<noteq> Some ''ab12'' \<or> DEBOUNCE_PERIOD < 5000001 - 0)"
    and g': "debounce_gate (Some 0) (Some ''ab12'') ''cd34'' 1
             = Inr (Some ''ab12'' \<noteq> Some ''cd34'' \<or> DEBOUNCE_PERIOD < 1 - 0)"
    using debounce_gate_emits by blast+
  have p: "posts (iteration ?w options (Bound (Some (Frame 2)))
                   (iteration ?w options (Bound (Some (Frame 1))) init)) =
        posts init @ (if DEBOUNCE_PERIOD < now ?w (Suc (wakes init)) - now ?w (wakes init)
                   then [Post ''ab12'' ''door'', Post ''ab12'' ''door'']
                   else [Post ''ab12'' ''door''])"
    using debounce_gate_emits[THEN conjunct2, THEN conjunct2, rule_format, OF h] .
  have i: "posts init = [] \<and> now ?w (Suc (wakes init)) - now ?w (wakes init) = 5000001"
    by (simp add: posts_def init_def)
  from g g' p i show ?thesis
    by (simp add: DEBOUNCE_PERIOD_def)
qed

text \<open>
  C8. In the initial state the detector holds no identifier and no timestamp. The gate then
  emits for every candidate, without reading the absent timestamp; and an iteration on a frame
  that shows a tag, in any state without a last identifier, calls the sink with that tag and
  goes on to the next iteration, whatever the sink answers.
\<close>

theorem first_identifier_always_emits:
  "(\<forall>tag c. debounce_gate None None tag c = Inr True) \<and>
   last_time init = None \<and> last_tag init = None \<and>
   (\<forall>w cfg f data tag dev s.
      last_tag s = None \<and> detectAndDecode w f = Decoded data \<and>
      TAG_ID_PATTERN_match data = Some tag \<and>
      subscript cfg ''tag_event_device_id'' = Inr dev \<longrightarrow>
      posts (iteration w cfg (Bound (Some f)) s) = posts s @ [Post tag dev] \<and>
      dpc (iteration w cfg (Bound (Some f)) s) = D_clear)"
proof (intro conjI allI impI)
  fix tag c
  show "debounce_gate None None tag c = Inr True"
    by (simp add: debounce_gate_def)
next
  show "last_time init = None" and "last_tag init = None"
    by (simp_all add: init_def)
next
  fix w :: world and s :: state and cfg f data tag dev
  assume h: "last_tag s = None \<and> detectAndDecode w f = Decoded data \<and>
      TAG_ID_PATTERN_match data = Some tag \<and>
      subscript cfg ''tag_event_device_id'' = Inr dev"
  then have g: "debounce_gate (last_time s) (last_tag s) tag (now w (wakes s)) = Inr True"
    by (simp add: gate_new_tag)
  from h have d: "detectAndDecode w f = Decoded data" and m: "TAG_ID_PATTERN_match data = Some tag"
    and k: "subscript cfg ''tag_event_device_id'' = Inr dev"
    by blast+
  from iteration_emits[OF d m g k]
  show "posts (iteration w cfg (Bound (Some f)) s) = posts s @ [Post tag dev]"
    and "dpc (iteration w cfg (Bound (Some f)) s) = D_clear"
    by blast+
qed

theorem first_identifier_always_emits_witness:
  "debounce_gate (last_time init) (last_tag init) ''ab12'' 0 = Inr True \<and>
   posts (iteration camera_world options (Bound (Some (Frame 1))) init) = [Post ''ab12'' ''door'']"
proof -
  have h: "last_tag init = None \<and>
      detectAndDecode camera_world (Frame 1) = Decoded ''https://www.home-assistant.io/tag/ab12'' \<and>
      TAG_ID_PATTERN_match ''https://www.home-assistant.io/tag/ab12'' = Some ''ab12'' \<and>
      subscript options ''tag_event_device_id'' = Inr ''door''"
    by (simp add: world_defs TAG_ID_PATTERN_match_def TAG_ID_PREFIX_def tag_char_def LF_def)
  have p: "posts (iteration camera_world options (Bound (Some (Frame 1))) init)
             = posts init @ [Post ''ab12'' ''door'']"
    using first_identifier_always_emits[THEN conjunct2, THEN conjunct2, THEN conjunct2,
        rule_format, OF h] by blast
  have g: "debounce_gate None None ''ab12'' 0 = Inr True"
    using first_identifier_always_emits by blast
  have i: "posts init = [] \<and> last_time init = None \<and> last_tag init = None"
    by (simp add: posts_def init_def)
  from p g i show ?thesis
    by simp
qed

section \<open>What the \<open>try\<close> of lines 60 to 70 catches\<close>

text \<open>
  Were the name \<open>frame\<close> bound when line 59 reads it, no error of decoding or processing
  would end the loop: every exception that can leave the body of the \<open>try\<close> is an
  \<open>Exception\<close>, so one of the two handlers logs it and the loop goes on to line 73.
\<close>

lemma subscript_exception: "subscript cfg k = Inl e \<Longrightarrow> is_Exception e"
  by (cases cfg) (auto split: option.splits)

lemma debounce_gate_exception: "debounce_gate t prev tag c = Inl e \<Longrightarrow> is_Exception e"
  by (auto simp: debounce_gate_def split: if_splits option.splits)

lemma send_tag_event_exception:
  "send_tag_event r tag dev s = (Some e, s') \<Longrightarrow> is_Exception e"
  by (cases r) (auto simp: send_tag_event_def Let_def)

lemma try_body_exception:
  assumes "try_body w cfg f s = (Some e, s')"
  shows "is_Exception e"
proof (cases "detectAndDecode w f")
  case (Decoded data)
  show ?thesis
  proof (cases "data = [] \<or> TAG_ID_PATTERN_match data = None")
    case True
    with assms Decoded show ?thesis
      by (auto simp: try_body_def Let_def split: if_splits)
  next
    case False
    then obtain tag where m: "data \<noteq> []" "TAG_ID_PATTERN_match data = Some tag"
      by auto
    let ?s1 = "emit (Detect f) s"
    show ?thesis
    proof (cases "debounce_gate (last_time ?s1) (last_tag ?s1) tag (now w (wakes ?s1))")
      case (Inl x)
      with assms Decoded m have "e = x"
        by (simp add: try_body_def Let_def)
      with Inl show ?thesis
        using debounce_gate_exception by blast
    next
      case (Inr go)
      show ?thesis
      proof (cases go)
        case False
        with assms Decoded m Inr show ?thesis
          by (simp add: try_body_def Let_def)
      next
        case True
        show ?thesis
        proof (cases "subscript cfg ''tag_event_device_id''")
          case (Inl x)
          with assms Decoded m Inr True have "e = x"
            by (simp add: try_body_def Let_def)
          with Inl show ?thesis
            using subscript_exception by blast
        next
          case (Inr dev)
          obtain r s2 where p: "send_tag_event (post w (wakes ?s1)) tag dev ?s1 = (r, s2)"
            by (cases "send_tag_event (post w (wakes ?s1)) tag dev ?s1") blast
          with assms Decoded m \<open>debounce_gate (last_time ?s1) (last_tag ?s1) tag
              (now w (wakes ?s1)) = Inr go\<close> True Inr
          have "r = Some e"
            by (cases r) (simp_all add: try_body_def Let_def)
          with p show ?thesis
            using send_tag_event_exception by blast
        qed
      qed
    qed
  qed
next
  case DecodeCvError
  with assms show ?thesis
    by (auto simp: try_body_def Let_def)
next
  case DecodeOtherError
  with assms show ?thesis
    by (auto simp: try_body_def Let_def)
qed

lemma loop_body_continues_on_a_frame: "dpc (loop_body w cfg (Bound fr) s) = D_clear"
proof (cases fr)
  case None
  then show ?thesis
    by (simp add: loop_body_def emit_def)
next
  case (Some f)
  obtain r s1 where t: "try_body w cfg f s = (r, s1)"
    by (cases "try_body w cfg f s") blast
  show ?thesis
  proof (cases r)
    case None
    with Some t show ?thesis
      by (simp add: loop_body_def)
  next
    case (Some e)
    with t have "is_Exception e"
      using try_body_exception by blast
    with Some \<open>fr = Some f\<close> t show ?thesis
      by (simp add: loop_body_def emit_def)
  qed
qed

end
